theory Spec2Isabelle
  imports Complex_Main "HOL-Library.AList"
begin

section \<open>Conventions of the embedding\<close>

text \<open>
  The player is TypeScript. Its numbers (times in seconds, pixel sizes, percentages) are
  modelled as \<^typ>\<open>real\<close>: exact arithmetic, without rounding and without infinities.
  Every comparison and every arithmetic expression is written as the source has it.
  The one non-number that the functions below can produce from numbers is \<open>NaN\<close>, from
  a division \<open>0 / 0\<close>; where that can happen the model says so, and the value is a
  \<open>jsNumber\<close>, a real or \<open>NaN\<close>. \<open>Math.PI\<close> is written
  \<open>pi\<close>, with one exception: \<open>Math.cos(Math.PI / 2)\<close> is the double \<open>6.123e-17\<close> and
  not 0, and the model keeps that double where the component computes it. The word
  length given to \<open>createBouncingAnimation\<close> is the length of a word that has the
  character, hence positive.
  Strings are \<^typ>\<open>string\<close> and \<open>length\<close> plays the role of \<open>String.length\<close>
  (the captions and colours looked at here are ASCII).
  Optional fields (\<open>?:\<close>) and the results of optional chains (\<open>a?.b?.c\<close>) are
  \<^typ>\<open>'a option\<close>. A JavaScript \<open>Map\<close> keeps its keys in insertion order; it is an
  association list with \<^const>\<open>AList.update\<close> for \<open>set\<close> (in place when the key
  exists, appended otherwise) and \<^const>\<open>AList.delete\<close> for \<open>delete\<close>.
\<close>

section \<open>Colour conversion (\<open>utils/index.ts\<close>, and the same function in the component)\<close>

text \<open>\<open>String.prototype.replace\<close> with a string pattern: the first occurrence only.\<close>

fun replace :: "string \<Rightarrow> string \<Rightarrow> string \<Rightarrow> string" where
  "replace pat rep [] = (if pat = [] then rep else [])"
| "replace pat rep (c # cs) =
     (if take (length pat) (c # cs) = pat then rep @ drop (length pat) (c # cs)
      else c # replace pat rep cs)"

text \<open>
  \<open>String.prototype.slice(start, end)\<close>: a negative index counts from the end, and
  both indices are clamped to the string.
\<close>

definition sliceIndex :: "int \<Rightarrow> nat \<Rightarrow> nat" where
  "sliceIndex i len = (if i < 0 then nat (max (int len + i) 0) else min (nat i) len)"

definition slice :: "string \<Rightarrow> int \<Rightarrow> int \<Rightarrow> string" where
  "slice s a b =
     (let from = sliceIndex a (length s); to = sliceIndex b (length s)
      in take (to - from) (drop from s))"

definition sliceFrom :: "string \<Rightarrow> int \<Rightarrow> string" where
  "sliceFrom s a = drop (sliceIndex a (length s)) s"

definition assColorToCss :: "string \<Rightarrow> string" where
  "assColorToCss assColor =
     (let hex = replace ''&'' '''' (replace ''&H'' '''' assColor)
      in if hex = ''00FFFFFF'' then ''#FFFFFF''
         else
           let bgr = sliceFrom hex (-6);
               b = slice bgr 0 2;
               g = slice bgr 2 4;
               r = slice bgr 4 6
           in ''#'' @ r @ g @ b)"

text \<open>A hexadecimal digit, and a well-formed colour \<open>&HAABBGGRR\<close>.\<close>

definition isHexDigit :: "char \<Rightarrow> bool" where
  "isHexDigit c = (c \<in> set ''0123456789ABCDEFabcdef'')"

definition wellFormedAssColor :: "string \<Rightarrow> bool" where
  "wellFormedAssColor s =
     (length s = 10 \<and> take 2 s = ''&H'' \<and> list_all isHexDigit (drop 2 s))"

section \<open>The timing model (the interfaces at the head of the component)\<close>

text \<open>
  Only the fields that the functions below read are kept. The field \<open>end\<close> of a word
  and of a pre-reading window is written \<open>endw\<close> and \<open>pr_end\<close> (\<open>end\<close> is a keyword).
\<close>

record CharacterTiming =
  start_time :: real
  end_time :: real
  peak_time :: "real option"

record BouncingAnimation =
  enabled :: bool
  min_height_percent :: real
  max_height_percent :: real
  wave_cycles :: "real option"

record Word =
  word :: string
  word_index :: int
  start :: real
  endw :: real
  bouncing_animation :: "BouncingAnimation option"

record PreReading =
  pr_start :: real
  pr_end :: real

record SyncEvent =
  event_id :: string
  speaker_id :: string
  pre_reading :: PreReading
  active_speech_words :: "Word list"

record SafetyMargins =
  left_percent :: real
  right_percent :: real

text \<open>
  The layout settings as the component reads them: each field is the value of one optional
  chain, \<open>timingData?.layout_settings?.work_area?.safety_margins\<close>,
  \<open>\<dots>?.caption_box_style?.padding?.horizontal_percent\<close> and
  \<open>\<dots>?.caption_box_style?.baseline_font_size_percent\<close>.
\<close>

record TimingSyncData =
  safety_margins :: "SafetyMargins option"
  horizontal_percent :: "real option"
  baseline_font_size_percent :: "real option"
  sync_events :: "SyncEvent list"

record Size =
  width :: real
  height :: real

section \<open>The animation manager (class \<open>GSAPAnimationManager\<close> of the component)\<close>

text \<open>
  An element is known by its identity and by its \<open>data-char-index\<close> attribute. The
  rendering surface is the map from elements to the vertical offset \<open>y\<close> that
  \<open>gsap.set(element, {y: v})\<close> was last given, a number or \<open>NaN\<close>. A timeline is kept as
  its two flags; running a played timeline, and its \<open>onComplete\<close> callback, are the
  animation library's work and are not part of the model.
\<close>

record HTMLElement =
  elementId :: nat
  dataset_charIndex :: "string option"

datatype jsNumber = Num real | NaN

type_synonym surface = "HTMLElement \<Rightarrow> jsNumber"

record Timeline =
  tl_paused :: bool
  tl_killed :: bool

record WaveData =
  element :: HTMLElement
  charPhase :: real
  bounceRange :: real
  startTime :: real
  duration :: real
  waveCycles :: real
  pronunciationStart :: real
  charTiming :: "CharacterTiming option"

record Manager =
  activeAnimations :: "(string \<times> Timeline) list"
  waveAnimations :: "(string \<times> WaveData) list"
  isPaused :: bool

definition newManager :: Manager where
  "newManager = \<lparr>activeAnimations = [], waveAnimations = [], isPaused = False\<rparr>"

text \<open>The decimal numeral of an index, as a template literal prints it.\<close>

function numberToString :: "nat \<Rightarrow> string" where
  "numberToString n =
     (if n < 10 then [''0123456789'' ! n]
      else numberToString (n div 10) @ [''0123456789'' ! (n mod 10)])"
  by pat_completeness auto
termination
  by (relation "measure id") auto

definition bounceId :: "HTMLElement \<Rightarrow> nat \<Rightarrow> string" where
  "bounceId el charIndex =
     (case dataset_charIndex el of
        None \<Rightarrow> numberToString charIndex
      | Some s \<Rightarrow> (if s = [] then numberToString charIndex else s)) @ ''-bounce''"

definition colorId :: "HTMLElement \<Rightarrow> string" where
  "colorId el =
     (case dataset_charIndex el of None \<Rightarrow> ''undefined'' | Some s \<Rightarrow> s) @ ''-color''"

definition kill :: "Timeline \<Rightarrow> Timeline" where
  "kill tline = tline\<lparr>tl_killed := True\<rparr>"

definition killExisting :: "string \<Rightarrow> (string \<times> Timeline) list \<Rightarrow> (string \<times> Timeline) list" where
  "killExisting animationId anims =
     (case map_of anims animationId of
        None \<Rightarrow> anims
      | Some tline \<Rightarrow> AList.update animationId (kill tline) anims)"

definition newTimeline :: Timeline where
  "newTimeline = \<lparr>tl_paused = True, tl_killed = False\<rparr>"

text \<open>
  \<open>createBouncingAnimation\<close>. The parameters \<open>popAnimationData\<close> and
  \<open>elevationHeight\<close> are not read by the method and are left out.
  \<open>wave_cycles || 1.5\<close> takes the default for a missing and for a zero value.
\<close>

definition createBouncingAnimation ::
  "Manager \<Rightarrow> HTMLElement \<Rightarrow> nat \<Rightarrow> nat \<Rightarrow> BouncingAnimation option \<Rightarrow> real \<Rightarrow> real \<Rightarrow> real
     \<Rightarrow> real \<Rightarrow> CharacterTiming option \<Rightarrow> Manager \<times> Timeline" where
  "createBouncingAnimation m el charIndex wordLength bouncingAnimation screenHeight
       startTime' wordDuration pronunciationStart' charTiming' =
     (let animationId = bounceId el charIndex;
          m1 = m\<lparr>activeAnimations := killExisting animationId (activeAnimations m)\<rparr>;
          timeline = newTimeline
      in case bouncingAnimation of
           None \<Rightarrow> (m1, timeline)
         | Some ba \<Rightarrow>
             if \<not> enabled ba then (m1, timeline)
             else
               let minBounce = screenHeight * (min_height_percent ba / 100);
                   maxBounce = screenHeight * (max_height_percent ba / 100);
                   bounceRange' = maxBounce - minBounce;
                   phaseOffset = (pi * 2) / real wordLength;
                   charPhase' = real charIndex * phaseOffset;
                   animationDuration = wordDuration;
                   waveCycles' =
                     (case wave_cycles ba of
                        None \<Rightarrow> 1.5
                      | Some c \<Rightarrow> if c = 0 then 1.5 else c);
                   data = \<lparr>element = el, charPhase = charPhase', bounceRange = bounceRange',
                           startTime = startTime', duration = animationDuration,
                           waveCycles = waveCycles', pronunciationStart = pronunciationStart',
                           charTiming = charTiming'\<rparr>
               in (m1\<lparr>waveAnimations := AList.update animationId data (waveAnimations m1),
                      activeAnimations := AList.update animationId timeline (activeAnimations m1)\<rparr>,
                   timeline))"

definition createColorTransition :: "Manager \<Rightarrow> HTMLElement \<Rightarrow> Manager \<times> Timeline" where
  "createColorTransition m el =
     (let animationId = colorId el;
          anims = killExisting animationId (activeAnimations m);
          timeline = newTimeline
      in (m\<lparr>activeAnimations := AList.update animationId timeline anims\<rparr>, timeline))"

definition pauseAll :: "Manager \<Rightarrow> Manager" where
  "pauseAll m =
     m\<lparr>isPaused := True,
       activeAnimations := map (\<lambda>(k, tline). (k, tline\<lparr>tl_paused := True\<rparr>)) (activeAnimations m)\<rparr>"

definition resumeAll :: "Manager \<Rightarrow> Manager" where
  "resumeAll m =
     m\<lparr>isPaused := False,
       activeAnimations := map (\<lambda>(k, tline). (k, tline\<lparr>tl_paused := False\<rparr>)) (activeAnimations m)\<rparr>"

text \<open>\<open>clearAll\<close>: every timeline is killed, then the map of timelines is emptied.\<close>

definition clearAll :: "Manager \<Rightarrow> Manager" where
  "clearAll m =
     (let killed = map (\<lambda>(k, tline). (k, kill tline)) (activeAnimations m)
      in m\<lparr>activeAnimations := []\<rparr>)"

text \<open>
  One entry of \<open>updateWaveAnimations\<close>: what the body of the \<open>forEach\<close> does with the
  entry's data at a video time. Inside the window \<open>0 \<le> elapsed \<le> animDuration\<close> a
  duration of 0 makes \<open>progress = 0 / 0\<close>, and \<open>currentY\<close> is then \<open>NaN\<close>.

  At \<open>progress = 1\<close> the argument of the cosine is \<open>Math.PI / 2\<close>, a double slightly below
  \<open>\<pi>/2\<close>, and \<open>Math.cos\<close> returns the double \<open>4967757600021511 / 2^106\<close>, about
  \<open>6.123e-17\<close>. It is the one point of the window at which the exact cosine is 0, so it
  is the one point at which the double is kept.
\<close>

definition cosHalfPi :: real where
  "cosHalfPi = 4967757600021511 / 2 ^ 106"

datatype waveAction = SetY jsNumber | Finish | Skip

definition animStartTime :: "WaveData \<Rightarrow> real" where
  "animStartTime d = (case charTiming d of Some ct \<Rightarrow> start_time ct | None \<Rightarrow> startTime d)"

definition animDuration :: "WaveData \<Rightarrow> real" where
  "animDuration d =
     (case charTiming d of Some ct \<Rightarrow> end_time ct - start_time ct | None \<Rightarrow> duration d)"

definition peakTime :: "WaveData \<Rightarrow> real" where
  "peakTime d =
     (case charTiming d of
        Some ct \<Rightarrow> (case peak_time ct of Some p \<Rightarrow> p | None \<Rightarrow> pronunciationStart d)
      | None \<Rightarrow> pronunciationStart d)"

definition waveEntry :: "real \<Rightarrow> WaveData \<Rightarrow> waveAction" where
  "waveEntry videoTime d =
     (let elapsed = videoTime - animStartTime d
      in if elapsed \<ge> 0 \<and> elapsed \<le> animDuration d then
           if animDuration d = 0 then SetY NaN
           else
             let progress = elapsed / animDuration d;
                 peakOffset = (peakTime d - animStartTime d) / animDuration d;
                 peakPhaseShift = - peakOffset * waveCycles d * pi * 2 + pi / 2;
                 wavePosition = progress * waveCycles d * pi * 2;
                 sineValue = \<bar>sin (wavePosition + charPhase d + peakPhaseShift)\<bar>;
                 damping = (if progress = 1 then cosHalfPi else cos (progress * pi / 2)) powr 1.5;
                 currentY = - bounceRange d * sineValue * damping
             in SetY (Num currentY)
         else if elapsed > animDuration d then Finish
         else Skip)"

definition waveStep ::
  "real \<Rightarrow> string \<times> WaveData \<Rightarrow> Manager \<times> surface \<Rightarrow> Manager \<times> surface" where
  "waveStep videoTime entry st =
     (case st of (m, ys) \<Rightarrow>
        (case waveEntry videoTime (snd entry) of
           SetY currentY \<Rightarrow> (m, ys(element (snd entry) := currentY))
         | Finish \<Rightarrow>
             (m\<lparr>waveAnimations := AList.delete (fst entry) (waveAnimations m)\<rparr>,
              ys(element (snd entry) := Num 0))
         | Skip \<Rightarrow> (m, ys)))"

definition updateWaveAnimations :: "Manager \<Rightarrow> surface \<Rightarrow> real \<Rightarrow> Manager \<times> surface" where
  "updateWaveAnimations m ys videoTime = fold (waveStep videoTime) (waveAnimations m) (m, ys)"

text \<open>
  \<open>updateVideoFrame\<close>, the callback of every video frame: with the video element present
  it reads \<open>video.currentTime\<close> and hands it to \<open>updateWaveAnimations\<close>. The argument is
  the current time of the video, \<open>None\<close> when there is no video element.
\<close>

definition updateVideoFrame :: "Manager \<Rightarrow> surface \<Rightarrow> real option \<Rightarrow> Manager \<times> surface" where
  "updateVideoFrame m ys video =
     (case video of
        None \<Rightarrow> (m, ys)
      | Some currentTime \<Rightarrow> updateWaveAnimations m ys currentTime)"

section \<open>The event resolver (\<open>getCurrentEvents\<close> and the selection in the render body)\<close>

definition isActive :: "real \<Rightarrow> Word \<Rightarrow> bool" where
  "isActive adjustedTime w = (adjustedTime \<ge> start w \<and> adjustedTime \<le> endw w)"

definition inPreReading :: "real \<Rightarrow> SyncEvent \<Rightarrow> bool" where
  "inPreReading adjustedTime event =
     (adjustedTime \<ge> pr_start (pre_reading event) \<and> adjustedTime \<le> pr_end (pre_reading event))"

record CurrentEvents =
  preReading :: "SyncEvent list"
  activeWords :: "(Word \<times> SyncEvent) list"

definition getCurrentEvents :: "TimingSyncData option \<Rightarrow> real \<Rightarrow> real \<Rightarrow> CurrentEvents" where
  "getCurrentEvents timingData syncOffset time =
     (case timingData of
        None \<Rightarrow> \<lparr>preReading = [], activeWords = []\<rparr>
      | Some td \<Rightarrow>
          let adjustedTime = time - syncOffset
          in \<lparr>preReading = filter (inPreReading adjustedTime) (sync_events td),
              activeWords =
                concat (map (\<lambda>event. map (\<lambda>w. (w, event))
                                (filter (isActive adjustedTime) (active_speech_words event)))
                            (sync_events td))\<rparr>)"

text \<open>
  The loop over \<open>currentEvents.preReading\<close> that looks for a word being spoken. Its state
  is \<open>currentEvent\<close> and \<open>lowestWordIndex\<close>; the latter starts at \<open>Infinity\<close>, which is
  \<open>None\<close> here.
\<close>

definition belowLowest :: "int \<Rightarrow> int option \<Rightarrow> bool" where
  "belowLowest i lowestWordIndex = (case lowestWordIndex of None \<Rightarrow> True | Some l \<Rightarrow> i < l)"

fun selectActive ::
  "real \<Rightarrow> SyncEvent list \<Rightarrow> SyncEvent option \<times> int option \<Rightarrow> SyncEvent option \<times> int option" where
  "selectActive adjustedTime [] st = st"
| "selectActive adjustedTime (event # rest) (currentEvent, lowestWordIndex) =
     (case find (isActive adjustedTime) (active_speech_words event) of
        None \<Rightarrow> selectActive adjustedTime rest (currentEvent, lowestWordIndex)
      | Some activeWord \<Rightarrow>
          if belowLowest (word_index activeWord) lowestWordIndex
          then selectActive adjustedTime rest (Some event, Some (word_index activeWord))
          else selectActive adjustedTime rest (currentEvent, lowestWordIndex))"

definition selectCurrentEvent :: "CurrentEvents \<Rightarrow> real \<Rightarrow> SyncEvent option" where
  "selectCurrentEvent currentEvents adjustedTime =
     (case fst (selectActive adjustedTime (preReading currentEvents) (None, None)) of
        Some event \<Rightarrow> Some event
      | None \<Rightarrow> find (inPreReading adjustedTime) (preReading currentEvents))"

text \<open>
  The flags of a word in the render body, for a word without a registered animation type:
  \<open>isCurrentlyActive\<close> looks the word up among the active words by text and index,
  \<open>isCurrentlyBeingPronounced\<close> compares the adjusted time, and \<open>shouldAnimate\<close> compares
  \<open>currentTime\<close> itself.
\<close>

definition isCurrentlyActive :: "CurrentEvents \<Rightarrow> Word \<Rightarrow> bool" where
  "isCurrentlyActive currentEvents wordData =
     list_ex (\<lambda>(w, event). word w = word wordData \<and> word_index w = word_index wordData)
       (activeWords currentEvents)"

definition isCurrentlyBeingPronounced :: "real \<Rightarrow> real \<Rightarrow> Word \<Rightarrow> bool" where
  "isCurrentlyBeingPronounced syncOffset currentTime wordData =
     (let adjustedTimeForWord = currentTime - syncOffset
      in adjustedTimeForWord \<ge> start wordData \<and> adjustedTimeForWord \<le> endw wordData)"

definition shouldAnimate :: "CurrentEvents \<Rightarrow> real \<Rightarrow> Word \<Rightarrow> bool" where
  "shouldAnimate currentEvents currentTime wordData =
     (isCurrentlyActive currentEvents wordData \<and> bouncing_animation wordData \<noteq> None
      \<and> currentTime \<ge> start wordData \<and> currentTime \<le> endw wordData)"

section \<open>Segmentation (the render body, for the primary and for the overlapping event)\<close>

text \<open>
  The component builds the segments of the primary event and of the overlapping event
  with the same statements, written out twice; they are one function here.
\<close>

definition fontSize :: "Size \<Rightarrow> real" where
  "fontSize actualSize = 5 * (height actualSize / 100)"

definition charWidth :: "Size \<Rightarrow> real" where
  "charWidth actualSize = fontSize actualSize * 0.6"

definition wordWidth :: "Size \<Rightarrow> Word \<Rightarrow> real" where
  "wordWidth actualSize w = (real (length (word w)) + 1) * charWidth actualSize"

definition captionBoxMaxWidth :: "TimingSyncData option \<Rightarrow> Size \<Rightarrow> real" where
  "captionBoxMaxWidth timingData actualSize =
     (let safetyMargins = (case timingData of None \<Rightarrow> None | Some td \<Rightarrow> safety_margins td);
          workAreaWidthPercent =
            (case safetyMargins of
               Some sm \<Rightarrow> 100 - (left_percent sm * 100) - (right_percent sm * 100)
             | None \<Rightarrow> 90);
          workAreaWidth = width actualSize * (workAreaWidthPercent / 100);
          horizontalPadding =
            (case (case timingData of None \<Rightarrow> None | Some td \<Rightarrow> horizontal_percent td) of
               Some hp \<Rightarrow> hp
             | None \<Rightarrow> 3.5);
          captionBoxPadding = workAreaWidth * (horizontalPadding / 100) * 2
      in workAreaWidth - captionBoxPadding)"

text \<open>
  The \<open>for\<close> loop over the words; its state is \<open>segments\<close>, \<open>currentSegment\<close> and
  \<open>estimatedWidth\<close>.
\<close>

fun segmentLoop ::
  "Size \<Rightarrow> real \<Rightarrow> Word list \<Rightarrow> Word list list \<times> Word list \<times> real
     \<Rightarrow> Word list list \<times> Word list \<times> real" where
  "segmentLoop actualSize maxWidth [] st = st"
| "segmentLoop actualSize maxWidth (w # ws) (segments, currentSegment, estimatedWidth) =
     (let wordWidth' = wordWidth actualSize w
      in if estimatedWidth + wordWidth' \<le> maxWidth
         then segmentLoop actualSize maxWidth ws
                (segments, currentSegment @ [w], estimatedWidth + wordWidth')
         else segmentLoop actualSize maxWidth ws
                (if length currentSegment > 0 then segments @ [currentSegment] else segments,
                 [w], wordWidth'))"

definition buildSegments :: "TimingSyncData option \<Rightarrow> Size \<Rightarrow> Word list \<Rightarrow> Word list list" where
  "buildSegments timingData actualSize ws =
     (case segmentLoop actualSize (captionBoxMaxWidth timingData actualSize) ws ([], [], 0) of
        (segments, currentSegment, estimatedWidth) \<Rightarrow>
          if length currentSegment > 0 then segments @ [currentSegment] else segments)"

text \<open>
  The cache key is the string \<open>event_id_width_height\<close>. A printed number has no
  underscore, so the string determines its three parts and the key is the triple.
\<close>

type_synonym cacheKey = "string \<times> real \<times> real"

record Caches =
  segmentCache :: "cacheKey \<Rightarrow> Word list list option"
  currentSegmentIndex :: "cacheKey \<Rightarrow> nat option"

definition emptyCaches :: Caches where
  "emptyCaches = \<lparr>segmentCache = (\<lambda>k. None), currentSegmentIndex = (\<lambda>k. None)\<rparr>"

definition cacheKeyOf :: "SyncEvent \<Rightarrow> Size \<Rightarrow> cacheKey" where
  "cacheKeyOf event actualSize = (event_id event, width actualSize, height actualSize)"

definition getSegments ::
  "TimingSyncData option \<Rightarrow> Size \<Rightarrow> SyncEvent \<Rightarrow> Caches \<Rightarrow> Word list list \<times> Caches" where
  "getSegments timingData actualSize event caches =
     (let cacheKey = cacheKeyOf event actualSize
      in case segmentCache caches cacheKey of
           Some segments \<Rightarrow> (segments, caches)
         | None \<Rightarrow>
             let segments = buildSegments timingData actualSize (active_speech_words event)
             in (segments,
                 caches\<lparr>segmentCache := (segmentCache caches)(cacheKey \<mapsto> segments)\<rparr>))"

text \<open>The first index at which a predicate holds: the \<open>for\<close> loop with \<open>break\<close>.\<close>

fun findIndex :: "('a \<Rightarrow> bool) \<Rightarrow> 'a list \<Rightarrow> nat option" where
  "findIndex P [] = None"
| "findIndex P (x # xs) =
     (if P x then Some 0 else (case findIndex P xs of None \<Rightarrow> None | Some i \<Rightarrow> Some (Suc i)))"

definition lastWord :: "Word list \<Rightarrow> Word option" where
  "lastWord segment = (if segment = [] then None else Some (segment ! (length segment - 1)))"

definition firstWordOfFirstSegment :: "Word list list \<Rightarrow> Word option" where
  "firstWordOfFirstSegment segments =
     (case segments of [] \<Rightarrow> None | s # _ \<Rightarrow> (case s of [] \<Rightarrow> None | w # _ \<Rightarrow> Some w))"

text \<open>
  The segment index to show, from the index shown before (\<open>previousIndex\<close>), for a
  non-empty list of segments.
\<close>

definition chooseSegmentIndex :: "Word list list \<Rightarrow> Word list \<Rightarrow> nat \<Rightarrow> real \<Rightarrow> nat" where
  "chooseSegmentIndex segments eventWords previousIndex adjustedTime =
     (let hasActiveWord = list_ex (isActive adjustedTime) eventWords
      in if \<not> hasActiveWord then
           (case firstWordOfFirstSegment segments of
              Some w \<Rightarrow> if adjustedTime < start w then 0 else previousIndex
            | None \<Rightarrow> previousIndex)
         else
           (case findIndex (list_ex (isActive adjustedTime)) segments of
              Some foundSegmentIndex \<Rightarrow> foundSegmentIndex
            | None \<Rightarrow>
                if previousIndex < length segments then
                  (case lastWord (segments ! previousIndex) of
                     Some lastWordInPrevSegment \<Rightarrow>
                       if adjustedTime > endw lastWordInPrevSegment
                       then min (previousIndex + 1) (length segments - 1)
                       else previousIndex
                   | None \<Rightarrow> previousIndex)
                else 0))"

definition segmentAt :: "Word list list \<Rightarrow> nat \<Rightarrow> Word list" where
  "segmentAt segments i = (if i < length segments then segments ! i else [])"

text \<open>
  The event to display: the event with its words replaced by the words of the chosen
  segment, and the caches after the step.
\<close>

definition displayEventOf ::
  "TimingSyncData option \<Rightarrow> Size \<Rightarrow> real \<Rightarrow> SyncEvent \<Rightarrow> Caches \<Rightarrow> SyncEvent \<times> Caches" where
  "displayEventOf timingData actualSize adjustedTime event caches =
     (case getSegments timingData actualSize event caches of
        (segments, caches1) \<Rightarrow>
          if length segments > 0 then
            let cacheKey = cacheKeyOf event actualSize;
                previousIndex =
                  (case currentSegmentIndex caches1 cacheKey of None \<Rightarrow> 0 | Some i \<Rightarrow> i);
                currentIndex =
                  chooseSegmentIndex segments (active_speech_words event) previousIndex adjustedTime;
                wordsToDisplay = segmentAt segments currentIndex
            in (event\<lparr>active_speech_words := wordsToDisplay\<rparr>,
                caches1\<lparr>currentSegmentIndex :=
                          (currentSegmentIndex caches1)(cacheKey \<mapsto> currentIndex)\<rparr>)
          else (event\<lparr>active_speech_words := []\<rparr>, caches1))"

definition overlappingEvents :: "CurrentEvents \<Rightarrow> SyncEvent \<Rightarrow> real \<Rightarrow> SyncEvent list" where
  "overlappingEvents currentEvents currentEvent adjustedTime =
     filter (\<lambda>event.
               if event = currentEvent \<or> speaker_id event = speaker_id currentEvent then False
               else inPreReading adjustedTime event)
            (preReading currentEvents)"

text \<open>
  One pass of the render body up to \<open>lineGroups\<close>: \<open>None\<close> when no event is selected
  (the body returns \<open>null\<close>), otherwise the two line groups, the upper box first.
\<close>

definition resolveLineGroups ::
  "TimingSyncData option \<Rightarrow> Size \<Rightarrow> real \<Rightarrow> real \<Rightarrow> Caches
     \<Rightarrow> SyncEvent list list option \<times> Caches" where
  "resolveLineGroups timingData actualSize syncOffset currentTime caches =
     (let currentEvents = getCurrentEvents timingData syncOffset currentTime;
          adjustedTime = currentTime - syncOffset
      in case selectCurrentEvent currentEvents adjustedTime of
           None \<Rightarrow> (None, caches)
         | Some currentEvent \<Rightarrow>
             (case displayEventOf timingData actualSize adjustedTime currentEvent caches of
                (displayEvent, caches1) \<Rightarrow>
                  (case overlappingEvents currentEvents currentEvent adjustedTime of
                     [] \<Rightarrow> (Some [[], [displayEvent]], caches1)
                   | overlappingEvent # _ \<Rightarrow>
                       (case displayEventOf timingData actualSize adjustedTime
                               overlappingEvent caches1 of
                          (overlappingDisplayEvent, caches2) \<Rightarrow>
                            (Some [[overlappingDisplayEvent], [displayEvent]], caches2)))))"

text \<open>
  The segment indices shown over a sequence of samples of one event at one size, from
  the index stored before the first sample.
\<close>

fun segmentIndexRun :: "Word list list \<Rightarrow> Word list \<Rightarrow> nat \<Rightarrow> real list \<Rightarrow> nat list" where
  "segmentIndexRun segments eventWords previousIndex [] = []"
| "segmentIndexRun segments eventWords previousIndex (t # ts) =
     (let currentIndex = chooseSegmentIndex segments eventWords previousIndex t
      in currentIndex # segmentIndexRun segments eventWords currentIndex ts)"

section \<open>The exported animation manager (\<open>managers/GSAPAnimationManager.ts\<close>)\<close>

text \<open>
  The library also exports a manager of its own. Its \<open>updateWaveAnimations\<close> has no
  character timing and no configured wave cycles: the entry holds a start time, a
  duration, an optional pre-roll and an optional peak position, and the wave has half a
  cycle and a quadratic damping. \<open>preRoll = 0\<close> and \<open>peakPosition = 0.25\<close> are the
  defaults of the destructuring. With a duration of 0 the quotient is \<open>0 / 0 = NaN\<close> when
  \<open>adjustedElapsed\<close> is 0, and \<open>Infinity\<close> otherwise, which the clamp turns into 1.
\<close>

record LibWaveData =
  lib_element :: HTMLElement
  lib_charPhase :: real
  lib_bounceRange :: real
  lib_startTime :: real
  lib_duration :: real
  lib_preRoll :: "real option"
  lib_peakPosition :: "real option"

definition libWaveEntry :: "real \<Rightarrow> LibWaveData \<Rightarrow> waveAction" where
  "libWaveEntry videoTime d =
     (let preRoll = (case lib_preRoll d of None \<Rightarrow> 0 | Some r \<Rightarrow> r);
          peakPosition = (case lib_peakPosition d of None \<Rightarrow> 0.25 | Some q \<Rightarrow> q);
          elapsed = videoTime - lib_startTime d;
          adjustedElapsed = elapsed + preRoll
      in if elapsed \<ge> - preRoll \<and> elapsed \<le> lib_duration d then
           if lib_duration d = 0 \<and> adjustedElapsed = 0 then SetY NaN
           else
             let progress =
                   (if lib_duration d = 0 then 1
                    else max 0 (min 1 (adjustedElapsed / lib_duration d)));
                 waveCycles' = 0.5;
                 phaseShift = - peakPosition * pi * 2 * waveCycles';
                 wavePosition = (progress * waveCycles' * pi * 2) + phaseShift;
                 sineValue = \<bar>sin (wavePosition + lib_charPhase d)\<bar>;
                 damping = (1 - progress) ^ 2;
                 currentY = - lib_bounceRange d * sineValue * damping
             in SetY (Num currentY)
         else if elapsed > lib_duration d then Finish
         else Skip)"

definition libWaveStep ::
  "real \<Rightarrow> string \<times> LibWaveData \<Rightarrow> (string \<times> LibWaveData) list \<times> surface
     \<Rightarrow> (string \<times> LibWaveData) list \<times> surface" where
  "libWaveStep videoTime entry st =
     (case st of (waves, ys) \<Rightarrow>
        (case libWaveEntry videoTime (snd entry) of
           SetY currentY \<Rightarrow> (waves, ys(lib_element (snd entry) := currentY))
         | Finish \<Rightarrow> (AList.delete (fst entry) waves, ys(lib_element (snd entry) := Num 0))
         | Skip \<Rightarrow> (waves, ys)))"

definition libUpdateWaveAnimations ::
  "(string \<times> LibWaveData) list \<Rightarrow> surface \<Rightarrow> real \<Rightarrow> (string \<times> LibWaveData) list \<times> surface" where
  "libUpdateWaveAnimations waves ys videoTime = fold (libWaveStep videoTime) waves (waves, ys)"

section \<open>Example animations\<close>

text \<open>
  The first character of a one-letter word, bouncing up to 10 percent of a screen of
  height 100 during \<open>[0, 1]\<close>, pronounced at 0, on a surface where everything rests.
\<close>

definition bouncingElement :: HTMLElement where
  "bouncingElement = \<lparr>elementId = 0, dataset_charIndex = Some ''0''\<rparr>"

definition bouncingConfig :: BouncingAnimation where
  "bouncingConfig =
     \<lparr>enabled = True, min_height_percent = 0, max_height_percent = 10, wave_cycles = None\<rparr>"

definition restingSurface :: surface where
  "restingSurface = (\<lambda>el. Num 0)"

definition bouncingManager :: Manager where
  "bouncingManager =
     fst (createBouncingAnimation newManager bouncingElement 0 1 (Some bouncingConfig)
            100 0 1 0 None)"

text \<open>
  The first character of the two-letter word \<open>Hi\<close>, spoken during \<open>[0, 0.5]\<close>: the bounce
  that \<open>CharacterWithBounce\<close> creates for it, with the start and the duration of the word.
\<close>

definition hiManager :: Manager where
  "hiManager =
     fst (createBouncingAnimation newManager bouncingElement 0 2 (Some bouncingConfig)
            100 0 (1 / 2) 0 None)"

text \<open>
  An entry of the exported manager for the same element: a bounce of range 10 during
  \<open>[0, 1]\<close>, with the default pre-roll and peak position.
\<close>

definition libExample :: LibWaveData where
  "libExample =
     \<lparr>lib_element = bouncingElement, lib_charPhase = 0, lib_bounceRange = 10, lib_startTime = 0,
      lib_duration = 1, lib_preRoll = None, lib_peakPosition = None\<rparr>"

section \<open>Notions used in the statements and proofs\<close>

text \<open>
  The vertical offset as the specification words it: the elapsed fraction \<open>p\<close> clamped to
  \<open>[0, 1]\<close>, the phase shift from the peak time, and the damping \<open>cos (p * \<pi>/2) ^ 1.5\<close>.
\<close>

definition specWaveOffset :: "real \<Rightarrow> real \<Rightarrow> real \<Rightarrow> real \<Rightarrow> real \<Rightarrow> real \<Rightarrow> real \<Rightarrow> real" where
  "specWaveOffset bounceRange' waveCycles' charPhase' charStart charEnd peakTime' t =
     (let p = max 0 (min 1 ((t - charStart) / (charEnd - charStart)));
          peakOffset = (peakTime' - charStart) / (charEnd - charStart);
          phaseShift = - peakOffset * waveCycles' * 2 * pi + pi / 2;
          damping = cos (p * pi / 2) powr 1.5
      in - bounceRange' * \<bar>sin (p * waveCycles' * 2 * pi + charPhase' + phaseShift)\<bar> * damping)"

text \<open>The pre-roll and the peak position of an entry of the exported manager, with their defaults.\<close>

definition libPreRoll :: "LibWaveData \<Rightarrow> real" where
  "libPreRoll d = (case lib_preRoll d of None \<Rightarrow> 0 | Some r \<Rightarrow> r)"

definition libPeakPosition :: "LibWaveData \<Rightarrow> real" where
  "libPeakPosition d = (case lib_peakPosition d of None \<Rightarrow> 0.25 | Some q \<Rightarrow> q)"

text \<open>
  The estimated width of a segment: the sum of the estimated widths of its words, which
  is the value \<open>estimatedWidth\<close> has when the segment is closed.
\<close>

definition estimatedWidthOf :: "Size \<Rightarrow> Word list \<Rightarrow> real" where
  "estimatedWidthOf actualSize segment = sum_list (map (wordWidth actualSize) segment)"

text \<open>A segment fits the box, or it is one word that is wider than the box by itself.\<close>

definition fitsOrSingle :: "Size \<Rightarrow> real \<Rightarrow> Word list \<Rightarrow> bool" where
  "fitsOrSingle actualSize maxWidth segment =
     (estimatedWidthOf actualSize segment \<le> maxWidth
      \<or> (\<exists>w. segment = [w] \<and> maxWidth < wordWidth actualSize w))"

text \<open>Greedy packing: the first word of a segment did not fit behind the segment before it.\<close>

definition greedy :: "Size \<Rightarrow> real \<Rightarrow> Word list list \<Rightarrow> bool" where
  "greedy actualSize maxWidth segments =
     (\<forall>i. Suc i < length segments \<longrightarrow>
        maxWidth < estimatedWidthOf actualSize (segments ! i)
                   + wordWidth actualSize (hd (segments ! Suc i)))"

text \<open>
  The state of the selection loop is consistent: either nothing is selected and the lowest
  index is still infinite, or the lowest index is that of the first active word of the
  selected event.
\<close>

definition selectionState :: "real \<Rightarrow> SyncEvent option \<times> int option \<Rightarrow> bool" where
  "selectionState adjustedTime st =
     (case st of (currentEvent, lowestWordIndex) \<Rightarrow>
        (currentEvent = None \<and> lowestWordIndex = None)
        \<or> (\<exists>e w. currentEvent = Some e
              \<and> find (isActive adjustedTime) (active_speech_words e) = Some w
              \<and> lowestWordIndex = Some (word_index w)))"

text \<open>The entry that \<open>createBouncingAnimation\<close> stores for an enabled bounce.\<close>

definition createdData ::
  "HTMLElement \<Rightarrow> nat \<Rightarrow> nat \<Rightarrow> BouncingAnimation \<Rightarrow> real \<Rightarrow> real \<Rightarrow> real \<Rightarrow> real
     \<Rightarrow> CharacterTiming option \<Rightarrow> WaveData" where
  "createdData el charIndex wordLength ba screenHeight startTime' wordDuration
       pronunciationStart' charTiming' =
     \<lparr>element = el,
      charPhase = real charIndex * ((pi * 2) / real wordLength),
      bounceRange = screenHeight * (max_height_percent ba / 100)
                    - screenHeight * (min_height_percent ba / 100),
      startTime = startTime', duration = wordDuration,
      waveCycles = (case wave_cycles ba of None \<Rightarrow> 1.5 | Some c \<Rightarrow> if c = 0 then 1.5 else c),
      pronunciationStart = pronunciationStart', charTiming = charTiming'\<rparr>"

text \<open>
  A segment index that the component can have stored for an event by time \<open>t\<close>: the first
  one, or the index of a segment that has a word that has started by \<open>t\<close> while every word
  of the segments before it has ended before \<open>t\<close>.
\<close>

definition reached :: "Word list list \<Rightarrow> nat \<Rightarrow> real \<Rightarrow> bool" where
  "reached segments i t =
     (i = 0
      \<or> (i < length segments
         \<and> list_ex (\<lambda>w. start w \<le> t) (segments ! i)
         \<and> list_all (list_all (\<lambda>u. endw u < t)) (take i segments)))"

text \<open>
  The displayed segment index of an event over a sequence of adjusted sample times, each
  sample being one pass of the render body for the event at a fixed size. The index
  shown is the one the pass stores (0 while nothing is stored).
\<close>

definition displayedIndex :: "Caches \<Rightarrow> cacheKey \<Rightarrow> nat" where
  "displayedIndex caches cacheKey =
     (case currentSegmentIndex caches cacheKey of None \<Rightarrow> 0 | Some i \<Rightarrow> i)"

fun displayRun ::
  "TimingSyncData option \<Rightarrow> Size \<Rightarrow> SyncEvent \<Rightarrow> Caches \<Rightarrow> real list \<Rightarrow> nat list" where
  "displayRun timingData actualSize event caches [] = []"
| "displayRun timingData actualSize event caches (t # ts) =
     (case displayEventOf timingData actualSize t event caches of
        (shown, caches1) \<Rightarrow>
          displayedIndex caches1 (cacheKeyOf event actualSize)
            # displayRun timingData actualSize event caches1 ts)"

section \<open>Example documents\<close>

definition mkWord :: "string \<Rightarrow> int \<Rightarrow> real \<Rightarrow> real \<Rightarrow> Word" where
  "mkWord text i s e =
     \<lparr>word = text, word_index = i, start = s, endw = e, bouncing_animation = None\<rparr>"

definition mkEvent :: "string \<Rightarrow> string \<Rightarrow> real \<Rightarrow> real \<Rightarrow> Word list \<Rightarrow> SyncEvent" where
  "mkEvent ident speaker s e ws =
     \<lparr>event_id = ident, speaker_id = speaker, pre_reading = \<lparr>pr_start = s, pr_end = e\<rparr>,
      active_speech_words = ws\<rparr>"

definition mkDocument :: "SyncEvent list \<Rightarrow> TimingSyncData" where
  "mkDocument events =
     \<lparr>safety_margins = None, horizontal_percent = None, baseline_font_size_percent = None,
      sync_events = events\<rparr>"

text \<open>
  Event A is in its pre-reading window during \<open>[0, 1]\<close> and speaks its sixth word then.
  Event B speaks its first word at the same time, but its pre-reading window is
  \<open>[10, 11]\<close>. Event C is like B with a pre-reading window around the word, and event D is
  a third speaker who is only being pre-read.
\<close>

definition eventA :: SyncEvent where
  "eventA = mkEvent ''A'' ''S1'' 0 1 [mkWord ''late'' 5 0 1]"

definition eventB :: SyncEvent where
  "eventB = mkEvent ''B'' ''S2'' 10 11 [mkWord ''first'' 0 0 1]"

definition eventC :: SyncEvent where
  "eventC = mkEvent ''C'' ''S2'' 0 2 [mkWord ''first'' 0 0 1]"

definition eventD :: SyncEvent where
  "eventD = mkEvent ''D'' ''S3'' 0 3 [mkWord ''soon'' 0 2 3]"

text \<open>
  An event whose only word \<open>Hi\<close> spans \<open>[0, 0.5]\<close>, once with the pre-reading window
  \<open>[0, 1]\<close> and once with the pre-reading window \<open>[10, 11]\<close>; and the word with a bounce.
\<close>

definition hiWord :: Word where
  "hiWord = mkWord ''Hi'' 0 0 (1 / 2)"

definition hiEventInside :: SyncEvent where
  "hiEventInside = mkEvent ''A'' ''S1'' 0 1 [hiWord]"

definition hiEventOutside :: SyncEvent where
  "hiEventOutside = mkEvent ''A'' ''S1'' 10 11 [hiWord]"

definition hiBouncingWord :: Word where
  "hiBouncingWord = hiWord\<lparr>bouncing_animation := Some bouncingConfig\<rparr>"

definition hiBouncingEvent :: SyncEvent where
  "hiBouncingEvent = mkEvent ''A'' ''S1'' 0 1 [hiBouncingWord]"

text \<open>A sentence of three words, and a viewport in which each word needs a line.\<close>

definition helloWords :: "Word list" where
  "helloWords = [mkWord ''Hello'' 0 0 1, mkWord ''wonderful'' 1 1 2, mkWord ''world'' 2 2 3]"

definition narrowSize :: Size where
  "narrowSize = \<lparr>width = 30, height = 100\<rparr>"

text \<open>The same sentence with pauses between the words.\<close>

definition gapWords :: "Word list" where
  "gapWords = [mkWord ''Hello'' 0 0 1, mkWord ''wonderful'' 1 3 4, mkWord ''world'' 2 5 6]"

text \<open>
  Caches left behind by earlier passes: a stored segment index, and stored segments, for
  every key.
\<close>

definition cachesWithIndex :: "nat \<Rightarrow> Caches" where
  "cachesWithIndex i = \<lparr>segmentCache = (\<lambda>k. None), currentSegmentIndex = (\<lambda>k. Some i)\<rparr>"

definition cachesWithSegments :: "Word list list \<Rightarrow> Caches" where
  "cachesWithSegments segments =
     \<lparr>segmentCache = (\<lambda>k. Some segments), currentSegmentIndex = (\<lambda>k. None)\<rparr>"

text \<open>The same sentence with the word windows out of order in time.\<close>

definition unorderedWords :: "Word list" where
  "unorderedWords = [mkWord ''Hello'' 0 5 6, mkWord ''wonderful'' 1 1 2]"

text \<open>A document that sets the baseline font size to 10 percent, and two long words.\<close>

definition largeFontDocument :: TimingSyncData where
  "largeFontDocument =
     \<lparr>safety_margins = None, horizontal_percent = None, baseline_font_size_percent = Some 10,
      sync_events = []\<rparr>"

definition longWords :: "Word list" where
  "longWords = [mkWord ''internationalization'' 0 0 1, mkWord ''wonderful'' 1 1 2]"

definition videoSize :: Size where
  "videoSize = \<lparr>width = 800, height = 450\<rparr>"

text \<open>
  The estimated width of a word as the specification words it, with the baseline font
  size percentage of the layout settings as a parameter.
\<close>

definition specWordWidth :: "real \<Rightarrow> Size \<Rightarrow> Word \<Rightarrow> real" where
  "specWordWidth baselineFontSizePercent actualSize w =
     (real (length (word w)) + 1) * ((baselineFontSizePercent * height actualSize / 100) * 0.6)"

section \<open>Colour conversion: theorems\<close>

lemma replace_no_occurrence:
  "CHR ''&'' \<notin> set s \<Longrightarrow> replace ''&'' '''' s = s"
  by (induction s) auto

lemma isHexDigit_not_amp: "isHexDigit c \<Longrightarrow> c \<noteq> CHR ''&''"
  by (auto simp: isHexDigit_def)

lemma assColorToCss_digits:
  assumes "list_all isHexDigit [a1, a2, b1, b2, g1, g2, r1, r2]"
  shows "assColorToCss (''&H'' @ [a1, a2, b1, b2, g1, g2, r1, r2]) = ''#'' @ [r1, r2, g1, g2, b1, b2]"
proof -
  have no_amp: "CHR ''&'' \<notin> set [a1, a2, b1, b2, g1, g2, r1, r2]"
    using assms isHexDigit_not_amp by (auto simp del: One_nat_def)
  have first: "replace ''&H'' [] (''&H'' @ [a1, a2, b1, b2, g1, g2, r1, r2])
      = [a1, a2, b1, b2, g1, g2, r1, r2]"
    by simp
  have second: "replace ''&'' [] [a1, a2, b1, b2, g1, g2, r1, r2]
      = [a1, a2, b1, b2, g1, g2, r1, r2]"
    using no_amp by (rule replace_no_occurrence)
  show ?thesis
    unfolding assColorToCss_def first second
    by (simp add: Let_def sliceFrom_def slice_def sliceIndex_def)
qed

lemma wellFormedAssColor_digits:
  assumes "wellFormedAssColor s"
  shows "\<exists>a1 a2 b1 b2 g1 g2 r1 r2.
           s = ''&H'' @ [a1, a2, b1, b2, g1, g2, r1, r2]
           \<and> list_all isHexDigit [a1, a2, b1, b2, g1, g2, r1, r2]"
proof -
  from assms have len: "length s = 10" and pre: "take 2 s = ''&H''"
    and hx: "list_all isHexDigit (drop 2 s)"
    by (simp_all add: wellFormedAssColor_def)
  from len obtain c1 c2 a1 a2 b1 b2 g1 g2 r1 r2 where
    "s = [c1, c2, a1, a2, b1, b2, g1, g2, r1, r2]"
    by (auto simp: length_Suc_conv eval_nat_numeral)
  with pre hx show ?thesis by auto
qed

text \<open>
  Claim C4. \<open>assColorToCss\<close> maps \<open>&H00FFFFFF\<close> to \<open>#FFFFFF\<close>. For every well-formed
  input \<open>&HAABBGGRR\<close> (ten characters, eight of them hexadecimal digits) the result is
  \<open>#\<close> followed by the last six digits with their three bytes in reverse order,
  \<open>RR GG BB\<close>. Reversing twice is the identity: the six digits of the result, given
  back to the function behind the same prefix, come out as the original six digits.
\<close>

theorem assColorToCss_bgr_to_rgb:
  assumes "wellFormedAssColor s"
  shows "assColorToCss ''&H00FFFFFF'' = ''#FFFFFF''
       \<and> assColorToCss s = ''#'' @ take 2 (drop 8 s) @ take 2 (drop 6 s) @ take 2 (drop 4 s)
       \<and> assColorToCss (take 4 s @ drop 1 (assColorToCss s)) = ''#'' @ drop 4 s"
proof -
  from wellFormedAssColor_digits [OF assms] obtain a1 a2 b1 b2 g1 g2 r1 r2 where
    s: "s = ''&H'' @ [a1, a2, b1, b2, g1, g2, r1, r2]"
    and hx: "list_all isHexDigit [a1, a2, b1, b2, g1, g2, r1, r2]"
    by blast
  have white: "assColorToCss ''&H00FFFFFF'' = ''#FFFFFF''"
    by (simp add: assColorToCss_def)
  have once: "assColorToCss s = ''#'' @ [r1, r2, g1, g2, b1, b2]"
    unfolding s using hx by (rule assColorToCss_digits)
  have hx': "list_all isHexDigit [a1, a2, r1, r2, g1, g2, b1, b2]"
    using hx by simp
  have twice: "assColorToCss (''&H'' @ [a1, a2, r1, r2, g1, g2, b1, b2])
      = ''#'' @ [b1, b2, g1, g2, r1, r2]"
    using hx' by (rule assColorToCss_digits)
  have fed_back: "take 4 s @ drop 1 (assColorToCss s) = ''&H'' @ [a1, a2, r1, r2, g1, g2, b1, b2]"
    unfolding once by (simp add: s)
  show ?thesis
    unfolding fed_back twice
    using white once by (simp add: s)
qed

theorem assColorToCss_bgr_to_rgb_witness:
  "wellFormedAssColor ''&H00FFFF00''
   \<and> assColorToCss ''&H00FFFF00'' = ''#00FFFF''
   \<and> assColorToCss (''&H00'' @ drop 1 (assColorToCss ''&H00FFFF00'')) = ''#FFFF00''"
proof -
  have wf: "wellFormedAssColor ''&H00FFFF00''"
    by (simp add: wellFormedAssColor_def isHexDigit_def)
  note inst = assColorToCss_bgr_to_rgb [OF wf]
  have once: "assColorToCss ''&H00FFFF00'' = ''#00FFFF''"
    using inst by simp
  have twice: "assColorToCss (take 4 ''&H00FFFF00'' @ drop 1 (assColorToCss ''&H00FFFF00''))
      = ''#'' @ drop 4 ''&H00FFFF00''"
    using inst by blast
  show ?thesis
    using wf once twice by simp
qed

section \<open>Segmentation: lemmas about the loop\<close>

lemma segmentLoop_concat:
  "segmentLoop sz mx ws (segs, cur, est) = (segs', cur', est')
   \<Longrightarrow> concat segs' @ cur' = concat segs @ cur @ ws"
  by (induction ws arbitrary: segs cur est) (auto simp: Let_def split: if_splits)

lemma segmentLoop_nonempty:
  "segmentLoop sz mx ws (segs, cur, est) = (segs', cur', est')
   \<Longrightarrow> [] \<notin> set segs \<Longrightarrow> [] \<notin> set segs'"
  by (induction ws arbitrary: segs cur est) (auto simp: Let_def split: if_splits)

lemma segmentLoop_bound:
  "segmentLoop sz mx ws (segs, cur, est) = (segs', cur', est')
   \<Longrightarrow> est = estimatedWidthOf sz cur
   \<Longrightarrow> \<forall>s\<in>set segs. fitsOrSingle sz mx s
   \<Longrightarrow> cur = [] \<or> fitsOrSingle sz mx cur
   \<Longrightarrow> (\<forall>s\<in>set segs'. fitsOrSingle sz mx s) \<and> (cur' = [] \<or> fitsOrSingle sz mx cur')"
proof (induction ws arbitrary: segs cur est)
  case Nil
  then show ?case by simp
next
  case (Cons w ws)
  show ?case
  proof (cases "est + wordWidth sz w \<le> mx")
    case True
    with Cons.prems(1) have r: "segmentLoop sz mx ws (segs, cur @ [w], est + wordWidth sz w) = (segs', cur', est')"
      by (simp add: Let_def)
    show ?thesis
      apply (rule Cons.IH [OF r])
      using Cons.prems True by (auto simp: estimatedWidthOf_def fitsOrSingle_def)
  next
    case False
    with Cons.prems(1) have r: "segmentLoop sz mx ws (if length cur > 0 then segs @ [cur] else segs, [w], wordWidth sz w) = (segs', cur', est')"
      by (simp add: Let_def)
    show ?thesis
      apply (rule Cons.IH [OF r])
      using Cons.prems False by (auto simp: estimatedWidthOf_def fitsOrSingle_def)
  qed
qed

lemma greedy_extend_last:
  "greedy sz mx (segs @ [cur]) \<Longrightarrow> cur \<noteq> [] \<Longrightarrow> greedy sz mx (segs @ [cur @ [w]])"
  unfolding greedy_def
  by (auto simp: nth_append less_Suc_eq)

lemma greedy_new:
  "greedy sz mx (segs @ [cur]) \<Longrightarrow> mx < estimatedWidthOf sz cur + wordWidth sz w
   \<Longrightarrow> greedy sz mx ((segs @ [cur]) @ [[w]])"
  unfolding greedy_def
  by (auto simp: nth_append less_Suc_eq)

lemma segmentLoop_greedy:
  "segmentLoop sz mx ws (segs, cur, est) = (segs', cur', est')
   \<Longrightarrow> est = estimatedWidthOf sz cur
   \<Longrightarrow> cur = [] \<longrightarrow> segs = []
   \<Longrightarrow> greedy sz mx (if cur = [] then segs else segs @ [cur])
   \<Longrightarrow> (cur' = [] \<longrightarrow> segs' = []) \<and> greedy sz mx (if cur' = [] then segs' else segs' @ [cur'])"
proof (induction ws arbitrary: segs cur est)
  case Nil
  then show ?case by auto
next
  case (Cons w ws)
  show ?case
  proof (cases "est + wordWidth sz w \<le> mx")
    case True
    with Cons.prems(1) have r: "segmentLoop sz mx ws (segs, cur @ [w], est + wordWidth sz w) = (segs', cur', est')"
      by (simp add: Let_def)
    have a: "greedy sz mx (segs @ [cur @ [w]])"
    proof (cases "cur = []")
      case True
      with Cons.prems(3) show ?thesis by (simp add: greedy_def)
    next
      case False
      with Cons.prems(4) show ?thesis by (simp add: greedy_extend_last)
    qed
    show ?thesis
      apply (rule Cons.IH [OF r])
      using Cons.prems a by (auto simp: estimatedWidthOf_def)
  next
    case False
    with Cons.prems(1) have r: "segmentLoop sz mx ws (if length cur > 0 then segs @ [cur] else segs, [w], wordWidth sz w) = (segs', cur', est')"
      by (simp add: Let_def)
    have a: "greedy sz mx ((if length cur > 0 then segs @ [cur] else segs) @ [[w]])"
    proof (cases "cur = []")
      case True
      with Cons.prems(3) show ?thesis by (simp add: greedy_def)
    next
      case False
      with Cons.prems(2,4) \<open>\<not> est + wordWidth sz w \<le> mx\<close> show ?thesis
        using greedy_new [of sz mx segs cur w] by simp
    qed
    show ?thesis
      apply (rule Cons.IH [OF r])
      using a by (auto simp: estimatedWidthOf_def)
  qed
qed


section \<open>Event selection: lemmas about the loop\<close>

lemma selectActive_result:
  "selectActive t es (cur, low) = (cur', low') \<Longrightarrow> selectionState t (cur, low)
   \<Longrightarrow> selectionState t (cur', low')
     \<and> (cur' = cur \<or> (\<exists>e\<in>set es. cur' = Some e))
     \<and> (\<forall>l. low = Some l \<longrightarrow> (\<exists>l'. low' = Some l' \<and> l' \<le> l))
     \<and> (\<forall>e\<in>set es. \<forall>w. find (isActive t) (active_speech_words e) = Some w
            \<longrightarrow> (\<exists>l'. low' = Some l' \<and> l' \<le> word_index w))"
proof (induction es arbitrary: cur low)
  case Nil
  then show ?case by simp
next
  case (Cons e es)
  show ?case
  proof (cases "find (isActive t) (active_speech_words e)")
    case None
    with Cons.prems(1) have r: "selectActive t es (cur, low) = (cur', low')" by simp
    from Cons.IH [OF r Cons.prems(2)] None show ?thesis by auto
  next
    case (Some w)
    show ?thesis
    proof (cases "belowLowest (word_index w) low")
      case True
      with Some Cons.prems(1)
      have r: "selectActive t es (Some e, Some (word_index w)) = (cur', low')" by simp
      have i: "selectionState t (Some e, Some (word_index w))"
        using Some by (simp add: selectionState_def)
      from Cons.IH [OF r i] True Some show ?thesis
        by (auto simp: belowLowest_def split: option.splits)
    next
      case False
      with Some Cons.prems(1) have r: "selectActive t es (cur, low) = (cur', low')" by simp
      from Cons.IH [OF r Cons.prems(2)] False Some show ?thesis
        by (auto simp: belowLowest_def split: option.splits)
    qed
  qed
qed

lemma find_sorted_least:
  "find P xs = Some w \<Longrightarrow> sorted (map f xs) \<Longrightarrow> w \<in> set xs \<and> P w \<and> (\<forall>v\<in>set xs. P v \<longrightarrow> f w \<le> f v)"
  by (induction xs) (auto split: if_splits)

lemma find_None_iff_ex: "(find P xs = None) = (\<not> list_ex P xs)"
  by (induction xs) auto

lemma find_filter_same: "find P (filter P xs) = find P xs"
  by (induction xs) auto

lemma selectActive_none:
  "\<forall>e\<in>set es. find (isActive t) (active_speech_words e) = None \<Longrightarrow> selectActive t es st = st"
  by (induction es arbitrary: st) (auto split: prod.splits)

section \<open>Segmentation: theorems\<close>

lemmas example_defs = mkWord_def mkEvent_def mkDocument_def eventA_def eventB_def eventC_def
  eventD_def helloWords_def narrowSize_def longWords_def videoSize_def largeFontDocument_def
  unorderedWords_def gapWords_def

lemmas width_defs = captionBoxMaxWidth_def wordWidth_def charWidth_def fontSize_def

lemma helloWords_segments:
  "buildSegments None narrowSize helloWords
     = [[mkWord ''Hello'' 0 0 1], [mkWord ''wonderful'' 1 1 2], [mkWord ''world'' 2 2 3]]"
  by (simp add: buildSegments_def width_defs example_defs)

lemma segmentLoop_result:
  obtains segments currentSegment estimatedWidth where
    "segmentLoop sz mx ws st = (segments, currentSegment, estimatedWidth)"
  by (metis prod_cases3)

lemma buildSegments_concat: "concat (buildSegments td sz ws) = ws"
proof -
  obtain segs cur est
    where r: "segmentLoop sz (captionBoxMaxWidth td sz) ws ([], [], 0) = (segs, cur, est)"
    by (rule segmentLoop_result)
  from segmentLoop_concat [OF r] show ?thesis
    by (auto simp add: buildSegments_def r)
qed

lemma buildSegments_nonempty: "[] \<notin> set (buildSegments td sz ws)"
proof -
  obtain segs cur est
    where r: "segmentLoop sz (captionBoxMaxWidth td sz) ws ([], [], 0) = (segs, cur, est)"
    by (rule segmentLoop_result)
  from segmentLoop_nonempty [OF r] show ?thesis
    by (auto simp add: buildSegments_def r)
qed

text \<open>
  Claim C10. For every event and every viewport size, the segments computed for the event
  (for the primary and for the overlapping event alike), concatenated in order, are
  exactly the event's \<open>active_speech_words\<close>: no word is dropped, duplicated or moved; and
  every segment is non-empty.
\<close>

theorem segments_partition_words:
  "concat (buildSegments timingData actualSize (active_speech_words event))
     = active_speech_words event
   \<and> (\<forall>segment \<in> set (buildSegments timingData actualSize (active_speech_words event)).
         segment \<noteq> [])"
  using buildSegments_concat buildSegments_nonempty by metis

theorem segments_partition_words_witness:
  "concat (buildSegments None narrowSize (active_speech_words (mkEvent ''E'' ''S1'' 0 3 helloWords)))
     = helloWords
   \<and> length (buildSegments None narrowSize helloWords) = 3
   \<and> [] \<notin> set (buildSegments None narrowSize helloWords)"
proof -
  have w: "active_speech_words (mkEvent ''E'' ''S1'' 0 3 helloWords) = helloWords"
    by (simp add: mkEvent_def)
  have n: "length (buildSegments None narrowSize helloWords) = 3"
    by (simp add: helloWords_segments)
  show ?thesis
    using n segments_partition_words [of None narrowSize "mkEvent ''E'' ''S1'' 0 3 helloWords"]
    unfolding w by auto
qed

lemma estimatedWidthOf_nonneg:
  "0 \<le> height sz \<Longrightarrow> 0 \<le> estimatedWidthOf sz s"
  by (induction s) (auto simp: estimatedWidthOf_def width_defs)

lemma wordWidth_nonneg: "0 \<le> height sz \<Longrightarrow> 0 \<le> wordWidth sz w"
  by (simp add: width_defs)

lemma segmentLoop_oversize:
  "segmentLoop sz mx ws (segs, cur, est) = (segs', cur', est')
   \<Longrightarrow> 0 \<le> height sz
   \<Longrightarrow> est = estimatedWidthOf sz cur
   \<Longrightarrow> mx < wordWidth sz w
   \<Longrightarrow> w \<in> set ws \<or> [w] \<in> set segs \<or> cur = [w]
   \<Longrightarrow> [w] \<in> set segs' \<or> cur' = [w]"
proof (induction ws arbitrary: segs cur est)
  case Nil
  then show ?case by auto
next
  case (Cons v ws)
  have nn: "0 \<le> estimatedWidthOf sz cur" "0 \<le> wordWidth sz v"
    using Cons.prems(2) by (simp_all add: estimatedWidthOf_nonneg wordWidth_nonneg)
  show ?case
  proof (cases "est + wordWidth sz v \<le> mx")
    case True
    with Cons.prems(1)
    have r: "segmentLoop sz mx ws (segs, cur @ [v], est + wordWidth sz v) = (segs', cur', est')"
      by (simp add: Let_def)
    have "v \<noteq> w" using True nn Cons.prems(3,4) by auto
    moreover have "cur \<noteq> [w]"
      using True nn Cons.prems(3,4) by (auto simp: estimatedWidthOf_def)
    ultimately have pre: "w \<in> set ws \<or> [w] \<in> set segs \<or> cur @ [v] = [w]"
      using Cons.prems(5) by auto
    have e: "est + wordWidth sz v = estimatedWidthOf sz (cur @ [v])"
      using Cons.prems(3) by (simp add: estimatedWidthOf_def)
    show ?thesis
      by (rule Cons.IH [OF r Cons.prems(2) e Cons.prems(4) pre])
  next
    case False
    with Cons.prems(1)
    have r: "segmentLoop sz mx ws
               (if length cur > 0 then segs @ [cur] else segs, [v], wordWidth sz v)
             = (segs', cur', est')"
      by (simp add: Let_def)
    have pre: "w \<in> set ws \<or> [w] \<in> set (if length cur > 0 then segs @ [cur] else segs) \<or> [v] = [w]"
      using Cons.prems(5) by auto
    have e: "wordWidth sz v = estimatedWidthOf sz [v]"
      by (simp add: estimatedWidthOf_def)
    show ?thesis
      by (rule Cons.IH [OF r Cons.prems(2) e Cons.prems(4) pre])
  qed
qed

text \<open>
  The width bound of the segmentation, for the font size that the loop uses (5 percent of
  the viewport height). Every segment either fits the box or is a single word wider than
  the box; a segment is closed only when the next word does not fit; and, for a viewport of
  non-negative height, every word wider than the box is a segment of its own.
\<close>

theorem buildSegments_estimated_width:
  fixes timingData actualSize ws
  defines "segments \<equiv> buildSegments timingData actualSize ws"
    and "maxWidth \<equiv> captionBoxMaxWidth timingData actualSize"
  shows "(\<forall>segment \<in> set segments.
            estimatedWidthOf actualSize segment \<le> maxWidth
            \<or> (\<exists>w. segment = [w] \<and> maxWidth < wordWidth actualSize w))
       \<and> (\<forall>i. Suc i < length segments \<longrightarrow>
             maxWidth < estimatedWidthOf actualSize (segments ! i)
                        + wordWidth actualSize (hd (segments ! Suc i)))
       \<and> (0 \<le> height actualSize \<longrightarrow>
            (\<forall>w \<in> set ws. maxWidth < wordWidth actualSize w \<longrightarrow> [w] \<in> set segments))"
proof -
  obtain segs cur est
    where r: "segmentLoop actualSize maxWidth ws ([], [], 0) = (segs, cur, est)"
    by (rule segmentLoop_result)
  have segments: "segments = (if cur = [] then segs else segs @ [cur])"
    by (simp add: segments_def buildSegments_def r [unfolded maxWidth_def])
  have "(\<forall>s\<in>set segs. fitsOrSingle actualSize maxWidth s) \<and> (cur = [] \<or> fitsOrSingle actualSize maxWidth cur)"
    by (rule segmentLoop_bound [OF r]) (simp_all add: estimatedWidthOf_def)
  then have a: "\<forall>segment \<in> set segments. fitsOrSingle actualSize maxWidth segment"
    by (auto simp: segments)
  have "(cur = [] \<longrightarrow> segs = []) \<and> greedy actualSize maxWidth (if cur = [] then segs else segs @ [cur])"
    by (rule segmentLoop_greedy [OF r]) (simp_all add: estimatedWidthOf_def greedy_def)
  then have b: "greedy actualSize maxWidth segments"
    by (simp add: segments)
  have c: "[w] \<in> set segments"
    if "0 \<le> height actualSize" "w \<in> set ws" "maxWidth < wordWidth actualSize w" for w
  proof -
    have "[w] \<in> set segs \<or> cur = [w]"
      by (rule segmentLoop_oversize [OF r that(1) _ that(3)]) (simp_all add: estimatedWidthOf_def that(2))
    then show ?thesis by (auto simp: segments)
  qed
  from a b c show ?thesis
    unfolding fitsOrSingle_def greedy_def by blast
qed

text \<open>
  Claim C8. The segmentation estimates the width of a word from a font size of 5 percent
  of the viewport height, whatever the document's \<open>baseline_font_size_percent\<close> is. For a
  document that sets the baseline to 10 percent, in a viewport of 800 by 450, the two
  words below are put in one segment, although their estimated width at the document's
  baseline font size (837) is larger than the width of the caption box (669.6).
\<close>

theorem buildSegments_ignores_baseline_font_size:
  "baseline_font_size_percent largeFontDocument = Some 10
   \<and> buildSegments (Some largeFontDocument) videoSize longWords = [longWords]
   \<and> length longWords = 2
   \<and> captionBoxMaxWidth (Some largeFontDocument) videoSize = 3348 / 5
   \<and> sum_list (map (specWordWidth 10 videoSize) longWords) = 837
   \<and> estimatedWidthOf videoSize longWords = 837 / 2"
  by (simp add: buildSegments_def width_defs example_defs specWordWidth_def estimatedWidthOf_def)

section \<open>Event selection: theorems\<close>

lemmas resolver_defs = selectCurrentEvent_def getCurrentEvents_def inPreReading_def isActive_def
  belowLowest_def

lemma list_ex_find:
  "list_ex P xs \<Longrightarrow> \<exists>x. find P xs = Some x"
  by (induction xs) auto

lemma preReading_set:
  "set (preReading (getCurrentEvents (Some td) syncOffset time))
     = {e \<in> set (sync_events td). inPreReading (time - syncOffset) e}"
  by (auto simp: getCurrentEvents_def Let_def)

text \<open>
  Claim C5, amended. The candidates are the events whose \<open>pre_reading\<close> window contains the
  adjusted time. In a document whose words are listed by ascending \<open>word_index\<close>, whenever
  a candidate has a word whose window contains the adjusted time, the resolver selects a
  candidate with such a word, and the \<open>word_index\<close> of that word is the lowest among the
  active words of all candidates.
\<close>

theorem selectCurrentEvent_lowest_word_index:
  fixes td syncOffset time
  defines "adjustedTime \<equiv> time - syncOffset"
    and "currentEvents \<equiv> getCurrentEvents (Some td) syncOffset time"
  assumes ascending: "\<forall>e \<in> set (sync_events td). sorted (map word_index (active_speech_words e))"
    and candidate: "\<exists>e \<in> set (sync_events td). inPreReading adjustedTime e
                      \<and> list_ex (isActive adjustedTime) (active_speech_words e)"
  shows "\<exists>e w. selectCurrentEvent currentEvents adjustedTime = Some e
           \<and> e \<in> set (sync_events td) \<and> inPreReading adjustedTime e
           \<and> w \<in> set (active_speech_words e) \<and> isActive adjustedTime w
           \<and> (\<forall>e' \<in> set (sync_events td). inPreReading adjustedTime e' \<longrightarrow>
                 (\<forall>w' \<in> set (active_speech_words e'). isActive adjustedTime w'
                    \<longrightarrow> word_index w \<le> word_index w'))"
proof -
  let ?cands = "preReading currentEvents"
  have cands: "set ?cands = {e \<in> set (sync_events td). inPreReading adjustedTime e}"
    unfolding currentEvents_def adjustedTime_def by (rule preReading_set)
  obtain cur low where r: "selectActive adjustedTime ?cands (None, None) = (cur, low)"
    by (metis surj_pair)
  have init: "selectionState adjustedTime (None, None)"
    by (simp add: selectionState_def)
  note res = selectActive_result [OF r init]
  from candidate obtain e0 w0 where e0: "e0 \<in> set ?cands"
    and w0: "find (isActive adjustedTime) (active_speech_words e0) = Some w0"
    using cands list_ex_find by blast
  from res e0 w0 obtain l where low: "low = Some l" by blast
  with res obtain e w where cur: "cur = Some e"
    and w: "find (isActive adjustedTime) (active_speech_words e) = Some w"
    and l: "l = word_index w"
    by (auto simp: selectionState_def)
  from res cur have e: "e \<in> set ?cands" by auto
  then have e': "e \<in> set (sync_events td)" "inPreReading adjustedTime e"
    using cands by auto
  from w have wa: "w \<in> set (active_speech_words e)" "isActive adjustedTime w"
    using find_sorted_least [OF w, of word_index] ascending e' by auto
  have least: "word_index w \<le> word_index w'"
    if "e' \<in> set (sync_events td)" "inPreReading adjustedTime e'"
      "w' \<in> set (active_speech_words e')" "isActive adjustedTime w'" for e' w'
  proof -
    from that have c: "e' \<in> set ?cands" using cands by auto
    from that have "list_ex (isActive adjustedTime) (active_speech_words e')"
      by (auto simp: list_ex_iff)
    then obtain v where v: "find (isActive adjustedTime) (active_speech_words e') = Some v"
      using list_ex_find by blast
    from res c v low l have "word_index w \<le> word_index v" by fastforce
    moreover have "word_index v \<le> word_index w'"
      using find_sorted_least [OF v, of word_index] ascending that by auto
    ultimately show ?thesis by simp
  qed
  have "selectCurrentEvent currentEvents adjustedTime = Some e"
    by (simp add: selectCurrentEvent_def r cur)
  with e' wa least show ?thesis by blast
qed

theorem selectCurrentEvent_lowest_word_index_witness:
  "selectCurrentEvent (getCurrentEvents (Some (mkDocument [eventA, eventC])) 0 (1/2)) (1/2 - 0)
     = Some eventC"
proof -
  let ?td = "mkDocument [eventA, eventC]"
  have asc: "\<forall>e \<in> set (sync_events ?td). sorted (map word_index (active_speech_words e))"
    by (simp add: example_defs)
  have cand: "\<exists>e \<in> set (sync_events ?td). inPreReading (1/2 - 0) e
                \<and> list_ex (isActive (1/2 - 0)) (active_speech_words e)"
    by (simp add: example_defs resolver_defs)
  from selectCurrentEvent_lowest_word_index [OF asc cand]
  obtain e w where s: "selectCurrentEvent (getCurrentEvents (Some ?td) 0 (1/2)) (1/2 - 0) = Some e"
    and e: "e \<in> set (sync_events ?td)"
    and w: "w \<in> set (active_speech_words e)"
    and least: "\<forall>e' \<in> set (sync_events ?td). inPreReading (1/2 - 0) e' \<longrightarrow>
                 (\<forall>w' \<in> set (active_speech_words e'). isActive (1/2 - 0) w'
                    \<longrightarrow> word_index w \<le> word_index w')"
    by blast
  from least have "word_index w \<le> 0"
    by (simp add: example_defs resolver_defs)
  with e w have "e = eventC"
    by (auto simp: example_defs)
  with s show ?thesis by simp
qed

text \<open>
  Events A and B both have a word whose window contains the time 0.5, and the word of B
  has the lower \<open>word_index\<close>; the resolver selects A, since the time is outside the
  pre-reading window of B.
\<close>

theorem selectCurrentEvent_lowest_word_index_counterexample:
  "list_ex (isActive (1/2)) (active_speech_words eventA)
   \<and> list_ex (isActive (1/2)) (active_speech_words eventB)
   \<and> map word_index (active_speech_words eventB) = [0]
   \<and> map word_index (active_speech_words eventA) = [5]
   \<and> selectCurrentEvent (getCurrentEvents (Some (mkDocument [eventA, eventB])) 0 (1/2)) (1/2 - 0)
       = Some eventA
   \<and> eventA \<noteq> eventB"
  by (simp add: example_defs resolver_defs)

lemma activeWords_empty:
  "\<forall>e \<in> set (sync_events td). \<not> list_ex (isActive (time - syncOffset)) (active_speech_words e)
   \<Longrightarrow> activeWords (getCurrentEvents (Some td) syncOffset time) = []"
  by (auto simp: getCurrentEvents_def Let_def list_ex_iff filter_empty_conv)

lemma selectCurrentEvent_fallback:
  assumes "\<forall>e \<in> set (sync_events td). \<not> list_ex (isActive (time - syncOffset)) (active_speech_words e)"
  shows "selectCurrentEvent (getCurrentEvents (Some td) syncOffset time) (time - syncOffset)
           = find (inPreReading (time - syncOffset)) (sync_events td)"
proof -
  let ?t = "time - syncOffset"
  let ?ce = "getCurrentEvents (Some td) syncOffset time"
  have "\<forall>e \<in> set (preReading ?ce). find (isActive ?t) (active_speech_words e) = None"
    using assms by (simp add: preReading_set find_None_iff_ex)
  then have "selectActive ?t (preReading ?ce) (None, None) = (None, None)"
    by (rule selectActive_none)
  moreover have "find (inPreReading ?t) (preReading ?ce) = find (inPreReading ?t) (sync_events td)"
    by (simp add: getCurrentEvents_def Let_def find_filter_same)
  ultimately show ?thesis
    by (simp add: selectCurrentEvent_def)
qed

lemma find_Some_member: "find P xs = Some x \<Longrightarrow> x \<in> set xs \<and> P x"
  by (induction xs) (auto split: if_splits)

lemma find_None_member: "find P xs = None \<Longrightarrow> x \<in> set xs \<Longrightarrow> \<not> P x"
  by (induction xs) (auto split: if_splits)

text \<open>
  Claim C6, amended. The resolver (\<open>getCurrentEvents\<close>, the selection of the event and the
  line groups) reads the time only as \<open>adjustedTime = t - syncOffset\<close>: what it yields for
  \<open>t\<close> and \<open>syncOffset\<close> is what it yields for \<open>t - syncOffset\<close> and offset 0. If no event has
  a word whose window contains the adjusted time, no word is marked active, the loop over
  the active words selects nothing, and the resolver selects the first event whose
  \<open>pre_reading\<close> window contains the adjusted time (an event is selected exactly when
  there is one). For a document with one event whose only word \<open>Hi\<close> spans \<open>[0, 0.5]\<close>: at
  \<open>t = 0.3\<close> with offset 0 the word \<open>Hi\<close> is marked active, and the event is selected, by
  the loop over the active words, if its pre-reading window contains 0.3, while no event
  is selected if it does not; at \<open>t = 0.3\<close> with offset 0.5 the adjusted time is \<open>-0.2\<close>, no
  word is active, the loop selects nothing, and the selection is the pre-reading check at
  \<open>-0.2\<close>.
\<close>

theorem selectCurrentEvent_pre_reading_fallback:
  fixes td :: TimingSyncData and syncOffset time a b :: real and k :: int
    and ident speaker :: string and actualSize :: Size and caches :: Caches
  defines "adjustedTime \<equiv> time - syncOffset"
    and "currentEvents \<equiv> getCurrentEvents (Some td) syncOffset time"
    and "hi \<equiv> mkWord ''Hi'' k 0 0.5"
  defines "hiEvent \<equiv> mkEvent ident speaker a b [hi]"
  shows "getCurrentEvents (Some td) syncOffset time = getCurrentEvents (Some td) 0 adjustedTime
       \<and> resolveLineGroups (Some td) actualSize syncOffset time caches
           = resolveLineGroups (Some td) actualSize 0 adjustedTime caches
       \<and> ((\<forall>e \<in> set (sync_events td). \<not> list_ex (isActive adjustedTime) (active_speech_words e))
          \<longrightarrow> activeWords currentEvents = []
            \<and> selectActive adjustedTime (preReading currentEvents) (None, None) = (None, None)
            \<and> selectCurrentEvent currentEvents adjustedTime
                = find (inPreReading adjustedTime) (sync_events td)
            \<and> (\<forall>e. selectCurrentEvent currentEvents adjustedTime = Some e
                  \<longrightarrow> e \<in> set (sync_events td)
                    \<and> pr_start (pre_reading e) \<le> adjustedTime
                    \<and> adjustedTime \<le> pr_end (pre_reading e))
            \<and> ((\<exists>e \<in> set (sync_events td). inPreReading adjustedTime e)
                  \<longrightarrow> selectCurrentEvent currentEvents adjustedTime \<noteq> None))
       \<and> activeWords (getCurrentEvents (Some (mkDocument [hiEvent])) 0 0.3) = [(hi, hiEvent)]
       \<and> selectActive (0.3 - 0) (preReading (getCurrentEvents (Some (mkDocument [hiEvent])) 0 0.3))
             (None, None)
           = (if a \<le> 0.3 \<and> 0.3 \<le> b then (Some hiEvent, Some k) else (None, None))
       \<and> selectCurrentEvent (getCurrentEvents (Some (mkDocument [hiEvent])) 0 0.3) (0.3 - 0)
           = (if a \<le> 0.3 \<and> 0.3 \<le> b then Some hiEvent else None)
       \<and> 0.3 - 0.5 = (- 0.2 :: real)
       \<and> activeWords (getCurrentEvents (Some (mkDocument [hiEvent])) 0.5 0.3) = []
       \<and> selectActive (0.3 - 0.5) (preReading (getCurrentEvents (Some (mkDocument [hiEvent])) 0.5 0.3))
             (None, None)
           = (None, None)
       \<and> selectCurrentEvent (getCurrentEvents (Some (mkDocument [hiEvent])) 0.5 0.3) (0.3 - 0.5)
           = find (inPreReading (- 0.2)) [hiEvent]"
proof -
  have shift: "getCurrentEvents (Some td) syncOffset time = getCurrentEvents (Some td) 0 adjustedTime"
    by (simp add: getCurrentEvents_def adjustedTime_def)
  have groups: "resolveLineGroups (Some td) actualSize syncOffset time caches
           = resolveLineGroups (Some td) actualSize 0 adjustedTime caches"
    unfolding resolveLineGroups_def shift by (simp add: adjustedTime_def)
  have general: "activeWords currentEvents = []
      \<and> selectActive adjustedTime (preReading currentEvents) (None, None) = (None, None)
      \<and> selectCurrentEvent currentEvents adjustedTime
          = find (inPreReading adjustedTime) (sync_events td)
      \<and> (\<forall>e. selectCurrentEvent currentEvents adjustedTime = Some e
            \<longrightarrow> e \<in> set (sync_events td)
              \<and> pr_start (pre_reading e) \<le> adjustedTime
              \<and> adjustedTime \<le> pr_end (pre_reading e))
      \<and> ((\<exists>e \<in> set (sync_events td). inPreReading adjustedTime e)
            \<longrightarrow> selectCurrentEvent currentEvents adjustedTime \<noteq> None)"
    if none: "\<forall>e \<in> set (sync_events td). \<not> list_ex (isActive adjustedTime) (active_speech_words e)"
  proof -
    have s: "selectCurrentEvent currentEvents adjustedTime
          = find (inPreReading adjustedTime) (sync_events td)"
      unfolding currentEvents_def adjustedTime_def
      by (rule selectCurrentEvent_fallback) (use none in \<open>simp add: adjustedTime_def\<close>)
    have w: "activeWords currentEvents = []"
      unfolding currentEvents_def
      by (rule activeWords_empty) (use none in \<open>simp add: adjustedTime_def\<close>)
    have "\<forall>e \<in> set (preReading currentEvents).
            find (isActive adjustedTime) (active_speech_words e) = None"
      unfolding currentEvents_def
      using none by (simp add: preReading_set find_None_iff_ex adjustedTime_def)
    then have l: "selectActive adjustedTime (preReading currentEvents) (None, None) = (None, None)"
      by (rule selectActive_none)
    have c: "\<forall>e. selectCurrentEvent currentEvents adjustedTime = Some e
            \<longrightarrow> e \<in> set (sync_events td)
              \<and> pr_start (pre_reading e) \<le> adjustedTime
              \<and> adjustedTime \<le> pr_end (pre_reading e)"
    proof (intro allI impI)
      fix e
      assume "selectCurrentEvent currentEvents adjustedTime = Some e"
      then have "find (inPreReading adjustedTime) (sync_events td) = Some e"
        unfolding s .
      from find_Some_member [OF this]
      show "e \<in> set (sync_events td)
              \<and> pr_start (pre_reading e) \<le> adjustedTime
              \<and> adjustedTime \<le> pr_end (pre_reading e)"
        by (simp add: inPreReading_def)
    qed
    have d: "(\<exists>e \<in> set (sync_events td). inPreReading adjustedTime e)
            \<longrightarrow> selectCurrentEvent currentEvents adjustedTime \<noteq> None"
      unfolding s by (auto simp: find_None_iff)
    show ?thesis
      by (intro conjI w l s c d)
  qed
  have events: "sync_events (mkDocument [hiEvent]) = [hiEvent]"
    by (simp add: mkDocument_def)
  have words: "active_speech_words hiEvent = [hi]"
    by (simp add: hiEvent_def mkEvent_def)
  have active: "isActive (0.3 - 0) hi"
    by (simp add: hi_def mkWord_def isActive_def)
  have window: "inPreReading (0.3 - 0) hiEvent = (a \<le> 0.3 \<and> 0.3 \<le> b)"
    by (simp add: hiEvent_def mkEvent_def inPreReading_def)
  have first_words: "activeWords (getCurrentEvents (Some (mkDocument [hiEvent])) 0 0.3)
                       = [(hi, hiEvent)]"
    using active by (simp add: getCurrentEvents_def Let_def events words)
  have first_candidates: "preReading (getCurrentEvents (Some (mkDocument [hiEvent])) 0 0.3)
                       = (if inPreReading (0.3 - 0) hiEvent then [hiEvent] else [])"
    by (simp add: getCurrentEvents_def Let_def events)
  have found: "selectActive (0.3 - 0) [hiEvent] (None, None) = (Some hiEvent, Some k)"
  proof -
    have "selectActive (0.3 - 0) [hiEvent] (None, None) = (Some hiEvent, Some (word_index hi))"
      using active by (simp add: words belowLowest_def)
    moreover have "word_index hi = k"
      by (simp add: hi_def mkWord_def)
    ultimately show ?thesis by simp
  qed
  have "selectActive (0.3 - 0)
          (preReading (getCurrentEvents (Some (mkDocument [hiEvent])) 0 0.3)) (None, None)
           = (if inPreReading (0.3 - 0) hiEvent then (Some hiEvent, Some k) else (None, None))"
  proof (cases "inPreReading (0.3 - 0) hiEvent")
    case True
    then show ?thesis
      unfolding first_candidates using found by simp
  next
    case False
    then show ?thesis
      unfolding first_candidates by simp
  qed
  then have first_loop: "selectActive (0.3 - 0)
                      (preReading (getCurrentEvents (Some (mkDocument [hiEvent])) 0 0.3)) (None, None)
           = (if a \<le> 0.3 \<and> 0.3 \<le> b then (Some hiEvent, Some k) else (None, None))"
    unfolding window .
  have "selectCurrentEvent (getCurrentEvents (Some (mkDocument [hiEvent])) 0 0.3) (0.3 - 0)
       = (if inPreReading (0.3 - 0) hiEvent then Some hiEvent else None)"
  proof (cases "inPreReading (0.3 - 0) hiEvent")
    case True
    then show ?thesis
      unfolding selectCurrentEvent_def first_candidates using found by simp
  next
    case False
    then show ?thesis
      unfolding selectCurrentEvent_def first_candidates by simp
  qed
  then have first_selection:
    "selectCurrentEvent (getCurrentEvents (Some (mkDocument [hiEvent])) 0 0.3) (0.3 - 0)
       = (if a \<le> 0.3 \<and> 0.3 \<le> b then Some hiEvent else None)"
    unfolding window .
  have none: "\<forall>e \<in> set (sync_events (mkDocument [hiEvent])).
                \<not> list_ex (isActive (0.3 - 0.5)) (active_speech_words e)"
    by (simp add: events words hi_def mkWord_def isActive_def)
  have third: "0.3 - 0.5 = (- 0.2 :: real)"
    by simp
  have second_words: "activeWords (getCurrentEvents (Some (mkDocument [hiEvent])) 0.5 0.3) = []"
    by (rule activeWords_empty [OF none])
  have "\<forall>e \<in> set (preReading (getCurrentEvents (Some (mkDocument [hiEvent])) 0.5 0.3)).
          find (isActive (0.3 - 0.5)) (active_speech_words e) = None"
    using none by (simp add: preReading_set find_None_iff_ex)
  then have second_loop:
    "selectActive (0.3 - 0.5) (preReading (getCurrentEvents (Some (mkDocument [hiEvent])) 0.5 0.3))
         (None, None) = (None, None)"
    by (rule selectActive_none)
  have second_selection:
    "selectCurrentEvent (getCurrentEvents (Some (mkDocument [hiEvent])) 0.5 0.3) (0.3 - 0.5)
       = find (inPreReading (- 0.2)) [hiEvent]"
    using selectCurrentEvent_fallback [OF none] unfolding events third .
  show ?thesis
    apply (intro conjI)
             apply (rule shift)
            apply (rule groups)
           apply (rule impI, erule general)
          apply (rule first_words)
         apply (rule first_loop)
        apply (rule first_selection)
       apply (rule third)
      apply (rule second_words)
     apply (rule second_loop)
    apply (rule second_selection)
    done
qed

theorem selectCurrentEvent_pre_reading_fallback_witness:
  "selectCurrentEvent (getCurrentEvents (Some (mkDocument [eventD])) 0 1) (1 - 0) = Some eventD
   \<and> selectActive (3 / 10 - 0)
        (preReading (getCurrentEvents (Some (mkDocument [hiEventInside])) 0 (3 / 10))) (None, None)
       = (Some hiEventInside, Some 0)
   \<and> selectCurrentEvent (getCurrentEvents (Some (mkDocument [hiEventInside])) 0 (3 / 10))
        (3 / 10 - 0)
       = Some hiEventInside
   \<and> selectCurrentEvent (getCurrentEvents (Some (mkDocument [hiEventInside])) (1 / 2) (3 / 10))
        (3 / 10 - 1 / 2)
       = None"
proof -
  have none: "\<forall>e \<in> set (sync_events (mkDocument [eventD])).
                \<not> list_ex (isActive (1 - 0)) (active_speech_words e)"
    by (simp add: example_defs isActive_def)
  have ev: "mkEvent ''A'' ''S1'' 0 1 [mkWord ''Hi'' 0 0 0.5] = hiEventInside"
    by (simp add: hiEventInside_def hiWord_def)
  note inst = selectCurrentEvent_pre_reading_fallback
                [where td = "mkDocument [eventD]" and time = 1 and syncOffset = 0 and k = 0
                   and a = 0 and b = 1 and ident = "''A''" and speaker = "''S1''",
                 unfolded ev]
  from inst none have "selectCurrentEvent (getCurrentEvents (Some (mkDocument [eventD])) 0 1) (1 - 0)
      = find (inPreReading (1 - 0)) (sync_events (mkDocument [eventD]))"
    by blast
  then have d: "selectCurrentEvent (getCurrentEvents (Some (mkDocument [eventD])) 0 1) (1 - 0)
      = Some eventD"
    by (simp add: example_defs inPreReading_def)
  from inst have "selectActive (0.3 - 0)
        (preReading (getCurrentEvents (Some (mkDocument [hiEventInside])) 0 0.3)) (None, None)
       = (if (0 :: real) \<le> 0.3 \<and> (0.3 :: real) \<le> 1 then (Some hiEventInside, Some 0)
          else (None, None))"
    by blast
  then have h0: "selectActive (3 / 10 - 0)
        (preReading (getCurrentEvents (Some (mkDocument [hiEventInside])) 0 (3 / 10))) (None, None)
       = (Some hiEventInside, Some 0)"
    by simp
  from inst have "selectCurrentEvent (getCurrentEvents (Some (mkDocument [hiEventInside])) 0 0.3)
        (0.3 - 0)
       = (if (0 :: real) \<le> 0.3 \<and> (0.3 :: real) \<le> 1 then Some hiEventInside else None)"
    by blast
  then have h1: "selectCurrentEvent (getCurrentEvents (Some (mkDocument [hiEventInside])) 0 (3 / 10))
        (3 / 10 - 0) = Some hiEventInside"
    by simp
  from inst have "selectCurrentEvent
        (getCurrentEvents (Some (mkDocument [hiEventInside])) 0.5 0.3) (0.3 - 0.5)
       = find (inPreReading (- 0.2)) [hiEventInside]"
    by blast
  then have h2: "selectCurrentEvent
        (getCurrentEvents (Some (mkDocument [hiEventInside])) (1 / 2) (3 / 10)) (3 / 10 - 1 / 2)
       = None"
    by (simp add: hiEventInside_def mkEvent_def inPreReading_def)
  from d h0 h1 h2 show ?thesis by blast
qed

lemma hiManager_waves:
  "waveAnimations hiManager
     = [(''0-bounce'',
         \<lparr>element = bouncingElement, charPhase = 0, bounceRange = 10, startTime = 0,
           duration = 1 / 2, waveCycles = 3 / 2, pronunciationStart = 0, charTiming = None\<rparr>)]"
  by (simp add: hiManager_def createBouncingAnimation_def newManager_def bounceId_def
      killExisting_def Let_def bouncingElement_def bouncingConfig_def)

text \<open>
  The word \<open>Hi\<close> spans \<open>[0, 0.5]\<close> in an event whose pre-reading window is \<open>[10, 11]\<close>: at
  \<open>t = 0.3\<close> with offset 0 the word is marked active and no event is selected.

  Not every comparison uses the adjusted time. With offset 1 at \<open>t = 1\<close> the adjusted time
  is 0: the word \<open>Hi\<close> is active and is being pronounced, but \<open>shouldAnimate\<close>, which
  compares \<open>t\<close> itself, is false, while it is true at \<open>t = 0\<close> with offset 0. And the frame
  callback hands \<open>t\<close> itself to \<open>updateWaveAnimations\<close>: at \<open>t = 1\<close> the bounce of the first
  character of \<open>Hi\<close> is over and removed, while at the adjusted time 0 it is at \<open>-10\<close>.
\<close>

theorem selectCurrentEvent_pre_reading_fallback_counterexample:
  "activeWords (getCurrentEvents (Some (mkDocument [hiEventOutside])) 0 (3 / 10))
     = [(hiWord, hiEventOutside)]
   \<and> selectCurrentEvent (getCurrentEvents (Some (mkDocument [hiEventOutside])) 0 (3 / 10))
        (3 / 10 - 0)
       = None
   \<and> isCurrentlyActive (getCurrentEvents (Some (mkDocument [hiBouncingEvent])) 1 1) hiBouncingWord
       = True
   \<and> isCurrentlyBeingPronounced 1 1 hiBouncingWord = True
   \<and> shouldAnimate (getCurrentEvents (Some (mkDocument [hiBouncingEvent])) 1 1) 1 hiBouncingWord
       = False
   \<and> shouldAnimate (getCurrentEvents (Some (mkDocument [hiBouncingEvent])) 0 0) 0 hiBouncingWord
       = True
   \<and> snd (updateVideoFrame hiManager restingSurface (Some 1)) bouncingElement = Num 0
   \<and> waveAnimations (fst (updateVideoFrame hiManager restingSurface (Some 1))) = []
   \<and> snd (updateWaveAnimations hiManager restingSurface (1 - 1)) bouncingElement = Num (- 10)"
proof -
  have a: "activeWords (getCurrentEvents (Some (mkDocument [hiEventOutside])) 0 (3 / 10))
             = [(hiWord, hiEventOutside)]
           \<and> selectCurrentEvent (getCurrentEvents (Some (mkDocument [hiEventOutside])) 0 (3 / 10))
               (3 / 10 - 0) = None"
    by (simp add: hiEventOutside_def hiWord_def mkEvent_def mkWord_def mkDocument_def resolver_defs)
  have b: "isCurrentlyActive (getCurrentEvents (Some (mkDocument [hiBouncingEvent])) 1 1)
             hiBouncingWord = True
           \<and> isCurrentlyBeingPronounced 1 1 hiBouncingWord = True
           \<and> shouldAnimate (getCurrentEvents (Some (mkDocument [hiBouncingEvent])) 1 1) 1
               hiBouncingWord = False
           \<and> shouldAnimate (getCurrentEvents (Some (mkDocument [hiBouncingEvent])) 0 0) 0
               hiBouncingWord = True"
    by (simp add: hiBouncingEvent_def hiBouncingWord_def hiWord_def mkEvent_def mkWord_def
        mkDocument_def getCurrentEvents_def isActive_def isCurrentlyActive_def
        isCurrentlyBeingPronounced_def shouldAnimate_def)
  have over: "waveEntry 1 \<lparr>element = bouncingElement, charPhase = 0, bounceRange = 10, startTime = 0,
           duration = 1 / 2, waveCycles = 3 / 2, pronunciationStart = 0, charTiming = None\<rparr>
     = Finish"
    by (simp add: waveEntry_def animStartTime_def animDuration_def Let_def)
  have running: "waveEntry 0 \<lparr>element = bouncingElement, charPhase = 0, bounceRange = 10,
           startTime = 0, duration = 1 / 2, waveCycles = 3 / 2, pronunciationStart = 0,
           charTiming = None\<rparr>
     = SetY (Num (- 10))"
    by (simp add: waveEntry_def animStartTime_def animDuration_def peakTime_def Let_def)
  have c: "snd (updateVideoFrame hiManager restingSurface (Some 1)) bouncingElement = Num 0
           \<and> waveAnimations (fst (updateVideoFrame hiManager restingSurface (Some 1))) = []"
    unfolding updateVideoFrame_def updateWaveAnimations_def hiManager_waves
    by (simp add: waveStep_def over hiManager_waves)
  have d: "snd (updateWaveAnimations hiManager restingSurface (1 - 1)) bouncingElement = Num (- 10)"
    unfolding updateWaveAnimations_def hiManager_waves
    by (simp add: waveStep_def running)
  from a b c d show ?thesis
    by simp
qed

section \<open>Caption boxes: theorems\<close>

lemma displayEventOf_event:
  "\<exists>ws. fst (displayEventOf td sz t e c) = e\<lparr>active_speech_words := ws\<rparr>"
  by (auto simp: displayEventOf_def Let_def split: prod.splits)

lemma displayEventOf_same:
  "fst (displayEventOf td sz t e c)
     = e\<lparr>active_speech_words := active_speech_words (fst (displayEventOf td sz t e c))\<rparr>"
proof -
  from displayEventOf_event obtain ws
    where "fst (displayEventOf td sz t e c) = e\<lparr>active_speech_words := ws\<rparr>" by blast
  then show ?thesis by simp
qed

lemma overlappingEvents_member:
  "ov \<in> set (overlappingEvents ce cur t)
   \<Longrightarrow> ov \<in> set (preReading ce) \<and> speaker_id ov \<noteq> speaker_id cur \<and> inPreReading t ov"
  by (auto simp: overlappingEvents_def split: if_splits)

text \<open>
  Claim C7. At every resolution instant either no event is selected and nothing is
  shown, or the line groups are exactly two: the lower one holds the primary event (with
  the words of its current segment) and the upper one holds at most one event. The
  upper box is used exactly when some event in its pre-reading window has another
  speaker than the primary event; it then shows the first such event of the document,
  and every further one is dropped. The function is total: no input is an error.
\<close>

theorem lineGroups_at_most_two_slots:
  fixes td :: TimingSyncData and syncOffset time :: real and actualSize :: Size and caches :: Caches
  defines "adjustedTime \<equiv> time - syncOffset"
    and "currentEvents \<equiv> getCurrentEvents (Some td) syncOffset time"
  defines "lineGroups \<equiv> fst (resolveLineGroups (Some td) actualSize syncOffset time caches)"
  shows "case selectCurrentEvent currentEvents adjustedTime of
           None \<Rightarrow> lineGroups = None
         | Some currentEvent \<Rightarrow>
             (\<exists>top bottom.
                lineGroups = Some [top, [bottom]]
                \<and> length top \<le> 1
                \<and> length top + length [bottom] \<le> 2
                \<and> bottom = currentEvent\<lparr>active_speech_words := active_speech_words bottom\<rparr>
                \<and> (top = []) = (overlappingEvents currentEvents currentEvent adjustedTime = [])
                \<and> (\<forall>shown \<in> set top.
                      \<exists>ov \<in> set (sync_events td).
                        ov = hd (overlappingEvents currentEvents currentEvent adjustedTime)
                        \<and> shown = ov\<lparr>active_speech_words := active_speech_words shown\<rparr>
                        \<and> speaker_id ov \<noteq> speaker_id currentEvent
                        \<and> inPreReading adjustedTime ov))"
proof (cases "selectCurrentEvent currentEvents adjustedTime")
  case None
  then show ?thesis
    by (simp add: lineGroups_def resolveLineGroups_def Let_def
        currentEvents_def [symmetric] adjustedTime_def [symmetric])
next
  case (Some cur)
  obtain bottom caches1
    where b: "displayEventOf (Some td) actualSize adjustedTime cur caches = (bottom, caches1)"
    by (metis surj_pair)
  have bottom: "bottom = cur\<lparr>active_speech_words := active_speech_words bottom\<rparr>"
    using displayEventOf_same [of "Some td" actualSize adjustedTime cur caches] b by simp
  show ?thesis
  proof (cases "overlappingEvents currentEvents cur adjustedTime")
    case Nil
    have "lineGroups = Some [[], [bottom]]"
      by (simp add: lineGroups_def resolveLineGroups_def Let_def Some b Nil
          currentEvents_def [symmetric] adjustedTime_def [symmetric])
    with bottom Nil show ?thesis
      by (simp add: Some)
  next
    case (Cons ov rest)
    obtain shown caches2
      where s: "displayEventOf (Some td) actualSize adjustedTime ov caches1 = (shown, caches2)"
      by (metis surj_pair)
    have shown: "shown = ov\<lparr>active_speech_words := active_speech_words shown\<rparr>"
      using displayEventOf_same [of "Some td" actualSize adjustedTime ov caches1] s by simp
    have "ov \<in> set (overlappingEvents currentEvents cur adjustedTime)"
      by (simp add: Cons)
    from overlappingEvents_member [OF this]
    have ov: "ov \<in> set (sync_events td)" "speaker_id ov \<noteq> speaker_id cur"
      "inPreReading adjustedTime ov"
      by (auto simp: currentEvents_def preReading_set)
    have "lineGroups = Some [[shown], [bottom]]"
      by (simp add: lineGroups_def resolveLineGroups_def Let_def Some b s Cons
          currentEvents_def [symmetric] adjustedTime_def [symmetric])
    with bottom shown ov Cons show ?thesis
      by (simp add: Some)
  qed
qed

lemma three_speakers_selection:
  "selectCurrentEvent (getCurrentEvents (Some (mkDocument [eventA, eventC, eventD])) 0 (1/2)) (1/2)
     = Some eventC"
  by (simp add: example_defs resolver_defs)

lemma three_speakers_overlapping:
  "overlappingEvents (getCurrentEvents (Some (mkDocument [eventA, eventC, eventD])) 0 (1/2)) eventC (1/2)
     = [eventA, eventD]"
  by (simp add: overlappingEvents_def example_defs resolver_defs)

lemma three_speakers_groups:
  "fst (resolveLineGroups (Some (mkDocument [eventA, eventC, eventD])) videoSize 0 (1/2) emptyCaches)
     = Some [[eventA], [eventC]]"
  apply (simp add: resolveLineGroups_def Let_def three_speakers_selection three_speakers_overlapping)
  apply (simp add: displayEventOf_def getSegments_def cacheKeyOf_def emptyCaches_def
      buildSegments_def width_defs chooseSegmentIndex_def firstWordOfFirstSegment_def
      segmentAt_def isActive_def Let_def example_defs)
  done

theorem lineGroups_at_most_two_slots_witness:
  "fst (resolveLineGroups (Some (mkDocument [eventA, eventC, eventD])) videoSize 0 (1/2) emptyCaches)
     = Some [[eventA], [eventC]]
   \<and> speaker_id eventA \<noteq> speaker_id eventC
   \<and> inPreReading (1/2) eventA"
proof -
  note inst = lineGroups_at_most_two_slots
      [where td = "mkDocument [eventA, eventC, eventD]" and time = "1/2" and syncOffset = 0
         and actualSize = videoSize and caches = emptyCaches]
  then obtain top bottom where
    g: "fst (resolveLineGroups (Some (mkDocument [eventA, eventC, eventD])) videoSize 0 (1/2) emptyCaches)
         = Some [top, [bottom]]"
    and t: "\<forall>shown \<in> set top.
              speaker_id eventA \<noteq> speaker_id eventC \<and> inPreReading (1/2) eventA"
    by (auto simp: three_speakers_selection three_speakers_overlapping)
  from g have "top = [eventA]"
    by (simp add: three_speakers_groups)
  with t three_speakers_groups show ?thesis
    by simp
qed

section \<open>The displayed segment index: theorems\<close>

lemma findIndex_Some:
  "findIndex P xs = Some i \<Longrightarrow> i < length xs \<and> P (xs ! i) \<and> (\<forall>j<i. \<not> P (xs ! j))"
proof (induction xs arbitrary: i)
  case Nil
  then show ?case by simp
next
  case (Cons x xs)
  show ?case
  proof (cases "P x")
    case True
    with Cons.prems show ?thesis by simp
  next
    case False
    with Cons.prems obtain k where k: "findIndex P xs = Some k" "i = Suc k"
      by (auto split: option.splits)
    from Cons.IH [OF k(1)] False k(2) show ?thesis
      by (auto simp: less_Suc_eq_0_disj)
  qed
qed

lemma findIndex_None: "(findIndex P xs = None) = (\<forall>x \<in> set xs. \<not> P x)"
  by (induction xs) (auto split: option.splits)

lemma list_ex_concat:
  "list_ex P (concat xss) = list_ex (list_ex P) xss"
  by (induction xss) (auto simp: list_ex_iff)

lemma sorted_wrt_concat_nth:
  "sorted_wrt R (concat xss) \<Longrightarrow> i < j \<Longrightarrow> j < length xss
   \<Longrightarrow> u \<in> set (xss ! i) \<Longrightarrow> v \<in> set (xss ! j) \<Longrightarrow> R u v"
proof (induction xss arbitrary: i j)
  case Nil
  then show ?case by simp
next
  case (Cons xs xss)
  from Cons.prems(2) obtain j' where j: "j = Suc j'" by (cases j) auto
  from Cons.prems(1) have s: "sorted_wrt R (concat xss)"
    and c: "\<forall>a \<in> set xs. \<forall>b \<in> set (concat xss). R a b"
    by (auto simp: sorted_wrt_append)
  show ?case
  proof (cases i)
    case 0
    with Cons.prems j have "u \<in> set xs" "v \<in> set (concat xss)"
      by auto
    with c show ?thesis by blast
  next
    case (Suc i')
    with Cons.prems j show ?thesis
      using Cons.IH [OF s, of i' j'] by simp
  qed
qed

text \<open>The index chosen for segments that partition the words of the event.\<close>

lemma chooseSegmentIndex_partition:
  assumes "concat segs = ws"
  shows "chooseSegmentIndex segs ws prev t =
     (case findIndex (list_ex (isActive t)) segs of
        Some found \<Rightarrow> found
      | None \<Rightarrow>
          (case firstWordOfFirstSegment segs of
             Some w \<Rightarrow> if t < start w then 0 else prev
           | None \<Rightarrow> prev))"
proof -
  have "list_ex (isActive t) ws = (findIndex (list_ex (isActive t)) segs \<noteq> None)"
    unfolding assms [symmetric] list_ex_concat findIndex_None
    by (auto simp: list_ex_iff)
  then show ?thesis
    by (auto simp: chooseSegmentIndex_def Let_def split: option.splits)
qed

lemma firstWord_member:
  "firstWordOfFirstSegment segs = Some f \<Longrightarrow> segs \<noteq> [] \<and> f \<in> set (segs ! 0)"
  by (auto simp: firstWordOfFirstSegment_def split: list.splits)

lemma reached_iff:
  "reached segs i t =
     (i = 0 \<or> (i < length segs \<and> (\<exists>w \<in> set (segs ! i). start w \<le> t)
                \<and> (\<forall>j<i. \<forall>u \<in> set (segs ! j). endw u < t)))"
proof -
  have "(\<forall>xs \<in> set (take i segs). \<forall>u \<in> set xs. endw u < t)
          = (\<forall>j<i. \<forall>u \<in> set (segs ! j). endw u < t)"
    if "i < length segs"
    using that by (simp add: all_set_conv_all_nth)
  then show ?thesis
    unfolding reached_def list_ex_iff list_all_iff by blast
qed

lemma reached_mono: "reached segs i t0 \<Longrightarrow> t0 \<le> t \<Longrightarrow> reached segs i t"
  unfolding reached_iff by (meson order_trans less_le_trans)

lemma starts_sorted_segments:
  assumes "concat segs = ws" "sorted (map start ws)" "i < j" "j < length segs"
    "u \<in> set (segs ! i)" "v \<in> set (segs ! j)"
  shows "start u \<le> start v"
  using sorted_wrt_concat_nth [of "\<lambda>u v. start u \<le> start v" segs i j u v] assms
  by (simp add: sorted_map)

lemma chooseSegmentIndex_step:
  assumes part: "concat segs = ws" and ord: "sorted (map start ws)"
    and inv: "reached segs prev t0" and le: "t0 \<le> t"
  shows "prev \<le> chooseSegmentIndex segs ws prev t
       \<and> reached segs (chooseSegmentIndex segs ws prev t) t"
proof (cases "findIndex (list_ex (isActive t)) segs")
  case None
  show ?thesis
  proof (cases "firstWordOfFirstSegment segs")
    case N: None
    have "chooseSegmentIndex segs ws prev t = prev"
      by (simp add: chooseSegmentIndex_partition [OF part] None N)
    with reached_mono [OF inv le] show ?thesis by simp
  next
    case (Some f)
    have "\<not> t < start f" if "prev \<noteq> 0"
    proof -
      from inv that obtain w where w: "w \<in> set (segs ! prev)" "start w \<le> t0"
        and p: "prev < length segs"
        unfolding reached_iff by blast
      from firstWord_member [OF Some] have f: "f \<in> set (segs ! 0)"
        by simp
      from that have "0 < prev" by simp
      from starts_sorted_segments [OF part ord this p f w(1)] w(2) le show ?thesis
        by simp
    qed
    then have "chooseSegmentIndex segs ws prev t = prev"
      by (auto simp: chooseSegmentIndex_partition [OF part] None Some)
    with reached_mono [OF inv le] show ?thesis by simp
  qed
next
  case (Some found)
  note f = findIndex_Some [OF Some]
  then obtain u where u: "u \<in> set (segs ! found)" "isActive t u"
    by (auto simp: list_ex_iff)
  have "prev \<le> found"
  proof (rule ccontr)
    assume "\<not> prev \<le> found"
    then have less: "found < prev" by simp
    with inv u(1) have "endw u < t0"
      unfolding reached_iff by auto
    with u(2) le show False
      by (simp add: isActive_def)
  qed
  moreover have "reached segs found t"
    unfolding reached_iff
  proof (intro disjI2 conjI allI impI ballI)
    show "found < length segs"
      using f by simp
    show "\<exists>w \<in> set (segs ! found). start w \<le> t"
      using u by (auto simp: isActive_def)
  next
    fix j x
    assume j: "j < found" and x: "x \<in> set (segs ! j)"
    from f have len: "found < length segs" by simp
    from starts_sorted_segments [OF part ord j len x u(1)] u(2) have "start x \<le> t"
      by (simp add: isActive_def)
    moreover from f j x have "\<not> isActive t x"
      by (auto simp: list_ex_iff)
    ultimately show "endw x < t"
      by (simp add: isActive_def)
  qed
  ultimately show ?thesis
    by (simp add: chooseSegmentIndex_partition [OF part] Some)
qed

lemma segmentIndexRun_sorted:
  assumes part: "concat segs = ws" and ord: "sorted (map start ws)"
  shows "reached segs prev t0 \<Longrightarrow> \<forall>t \<in> set ts. t0 \<le> t \<Longrightarrow> sorted_wrt (<) ts
         \<Longrightarrow> sorted (prev # segmentIndexRun segs ws prev ts)"
proof (induction ts arbitrary: prev t0)
  case Nil
  then show ?case by simp
next
  case (Cons t ts)
  let ?i = "chooseSegmentIndex segs ws prev t"
  from Cons.prems(2) have le: "t0 \<le> t"
    by simp
  from Cons.prems(3) have later: "\<forall>t' \<in> set ts. t \<le> t'" and rest: "sorted_wrt (<) ts"
    by auto
  from chooseSegmentIndex_step [OF part ord Cons.prems(1) le]
  have i: "prev \<le> ?i" and r: "reached segs ?i t"
    by simp_all
  from Cons.IH [OF r later rest] have "sorted (?i # segmentIndexRun segs ws ?i ts)" .
  with i show ?case
    by (auto simp: Let_def)
qed

lemma chooseSegmentIndex_advance:
  assumes part: "concat segs = ws" and ord: "sorted (map start ws)" and ne: "[] \<notin> set segs"
    and adv: "prev < chooseSegmentIndex segs ws prev t"
  shows "findIndex (list_ex (isActive t)) segs = Some (chooseSegmentIndex segs ws prev t)
       \<and> prev < length segs
       \<and> \<not> list_ex (isActive t) (segs ! prev)
       \<and> endw (last (segs ! prev)) < t"
proof -
  let ?i = "chooseSegmentIndex segs ws prev t"
  from adv obtain found where found: "findIndex (list_ex (isActive t)) segs = Some found"
    and i: "?i = found"
    by (auto simp: chooseSegmentIndex_partition [OF part] split: option.splits if_splits)
  note f = findIndex_Some [OF found]
  from f adv i have p: "prev < length segs"
    by simp
  from f adv i have quiet: "\<not> list_ex (isActive t) (segs ! prev)"
    by simp
  from f obtain u where u: "u \<in> set (segs ! found)" "isActive t u"
    by (auto simp: list_ex_iff)
  let ?v = "last (segs ! prev)"
  from ne p have v: "?v \<in> set (segs ! prev)"
    by (metis last_in_set nth_mem)
  from adv i have less: "prev < found" by simp
  from f have len: "found < length segs" by simp
  from starts_sorted_segments [OF part ord less len v u(1)] u(2) have "start ?v \<le> t"
    by (simp add: isActive_def)
  moreover from v quiet have "\<not> isActive t ?v"
    by (auto simp: list_ex_iff)
  ultimately have "endw ?v < t"
    by (simp add: isActive_def)
  with found i p quiet show ?thesis by simp
qed

text \<open>
  One pass of the render body for an event: the segments it uses are cached afterwards,
  and the stored index is the chosen one.
\<close>

lemma displayEventOf_index:
  assumes pass: "displayEventOf td sz t event caches = (shown, caches1)"
  shows "segmentCache caches1 (cacheKeyOf event sz) = Some (fst (getSegments td sz event caches))
       \<and> fst (getSegments td sz event caches1) = fst (getSegments td sz event caches)
       \<and> displayedIndex caches1 (cacheKeyOf event sz)
           = (if fst (getSegments td sz event caches) = []
              then displayedIndex caches (cacheKeyOf event sz)
              else chooseSegmentIndex (fst (getSegments td sz event caches))
                     (active_speech_words event) (displayedIndex caches (cacheKeyOf event sz)) t)"
  using pass
  by (auto simp: displayEventOf_def getSegments_def displayedIndex_def Let_def
      split: option.splits if_splits)

lemma segmentIndexRun_no_segments:
  "segmentIndexRun [] [] prev ts = replicate (length ts) prev"
  by (induction ts) (simp_all add: chooseSegmentIndex_def firstWordOfFirstSegment_def Let_def)

lemma displayRun_no_segments:
  "fst (getSegments td sz event caches) = []
   \<Longrightarrow> displayRun td sz event caches ts
       = replicate (length ts) (displayedIndex caches (cacheKeyOf event sz))"
proof (induction ts arbitrary: caches)
  case Nil
  then show ?case by simp
next
  case (Cons t ts)
  obtain shown caches1 where pass: "displayEventOf td sz t event caches = (shown, caches1)"
    by (metis surj_pair)
  note step = displayEventOf_index [OF pass]
  from step Cons.prems have "fst (getSegments td sz event caches1) = []"
    and "displayedIndex caches1 (cacheKeyOf event sz) = displayedIndex caches (cacheKeyOf event sz)"
    by simp_all
  with Cons.IH [of caches1] show ?case
    by (simp add: pass)
qed

lemma displayRun_segmentIndexRun:
  assumes part: "concat segs = active_speech_words event"
  shows "fst (getSegments td sz event caches) = segs
   \<Longrightarrow> displayRun td sz event caches ts
       = segmentIndexRun segs (active_speech_words event)
           (displayedIndex caches (cacheKeyOf event sz)) ts"
proof (cases "segs = []")
  case True
  assume "fst (getSegments td sz event caches) = segs"
  with True part displayRun_no_segments [of td sz event caches ts] show ?thesis
    by (simp add: segmentIndexRun_no_segments)
next
  case False
  assume "fst (getSegments td sz event caches) = segs"
  then show ?thesis
  proof (induction ts arbitrary: caches)
    case Nil
    then show ?case by simp
  next
    case (Cons t ts)
    obtain shown caches1 where pass: "displayEventOf td sz t event caches = (shown, caches1)"
      by (metis surj_pair)
    note step = displayEventOf_index [OF pass]
    from step Cons.prems have c1: "fst (getSegments td sz event caches1) = segs"
      by simp
    from step Cons.prems False Cons.IH [OF c1] show ?case
      by (simp add: pass Let_def)
  qed
qed

lemma getSegments_fresh:
  "segmentCache caches (cacheKeyOf event sz) = None
   \<Longrightarrow> fst (getSegments td sz event caches) = buildSegments td sz (active_speech_words event)"
  by (simp add: getSegments_def Let_def)

lemma getSegments_cached:
  "segmentCache caches (cacheKeyOf event sz) = Some segs
   \<Longrightarrow> fst (getSegments td sz event caches) = segs"
  by (simp add: getSegments_def Let_def)

text \<open>
  Claim C9, amended. Take an event whose words are listed by ascending start time, a fixed
  viewport size, and strictly increasing adjusted sample times, all rendering this event.
  Let the state before the first sample be one that passes at earlier times can have
  left: the segments cached for the event at this size, if there are any, split the words
  of the event, in order, into non-empty segments; and the stored segment index (0 when
  none is stored) is 0, or it is the index of a segment one of whose words has started by
  some time \<open>t0\<close> that is not later than any sample, while every word of the segments before
  it has ended before \<open>t0\<close>. Then the displayed segment index never decreases, beginning
  with the stored one. Whenever a pass shows a higher index than the one stored
  before, no word of the segment shown before is active, the last word of that segment
  has ended, and the new index is that of the first segment with an active word (it can
  be more than one segment ahead).
\<close>

theorem displayed_segment_index_monotonic:
  fixes timingData :: "TimingSyncData option" and actualSize :: Size and event :: SyncEvent
    and caches :: Caches and ts :: "real list"
  defines "segments \<equiv> fst (getSegments timingData actualSize event caches)"
    and "cacheKey \<equiv> cacheKeyOf event actualSize"
  assumes ordered: "sorted (map start (active_speech_words event))"
    and increasing: "sorted_wrt (<) ts"
    and cached: "\<forall>segs. segmentCache caches cacheKey = Some segs
                   \<longrightarrow> concat segs = active_speech_words event \<and> [] \<notin> set segs"
    and stored: "\<exists>t0. (\<forall>t \<in> set ts. t0 \<le> t) \<and> reached segments (displayedIndex caches cacheKey) t0"
  shows "sorted (displayedIndex caches cacheKey # displayRun timingData actualSize event caches ts)
       \<and> (\<forall>c t. segmentCache c cacheKey = Some segments
                 \<and> displayedIndex c cacheKey
                     < displayedIndex (snd (displayEventOf timingData actualSize t event c)) cacheKey
              \<longrightarrow> findIndex (list_ex (isActive t)) segments
                    = Some (displayedIndex (snd (displayEventOf timingData actualSize t event c)) cacheKey)
                \<and> displayedIndex c cacheKey < length segments
                \<and> \<not> list_ex (isActive t) (segments ! displayedIndex c cacheKey)
                \<and> endw (last (segments ! displayedIndex c cacheKey)) < t)"
proof -
  let ?ws = "active_speech_words event"
  have split: "concat segments = ?ws \<and> [] \<notin> set segments"
  proof (cases "segmentCache caches cacheKey")
    case None
    then have "segments = buildSegments timingData actualSize ?ws"
      unfolding segments_def cacheKey_def by (rule getSegments_fresh)
    then show ?thesis
      by (simp add: buildSegments_concat buildSegments_nonempty)
  next
    case (Some segs)
    then have "segments = segs"
      unfolding segments_def cacheKey_def by (rule getSegments_cached)
    with cached Some show ?thesis
      by simp
  qed
  then have part: "concat segments = ?ws" and ne: "[] \<notin> set segments"
    by simp_all
  have run: "displayRun timingData actualSize event caches ts
               = segmentIndexRun segments ?ws (displayedIndex caches cacheKey) ts"
    unfolding cacheKey_def
    by (rule displayRun_segmentIndexRun [OF part]) (simp add: segments_def)
  from stored obtain t0 where t0: "\<forall>t \<in> set ts. t0 \<le> t"
    and r: "reached segments (displayedIndex caches cacheKey) t0"
    by blast
  have mono: "sorted (displayedIndex caches cacheKey
                       # segmentIndexRun segments ?ws (displayedIndex caches cacheKey) ts)"
    by (rule segmentIndexRun_sorted [OF part ordered r t0 increasing])
  have adv: "findIndex (list_ex (isActive t)) segments
                    = Some (displayedIndex (snd (displayEventOf timingData actualSize t event c)) cacheKey)
                \<and> displayedIndex c cacheKey < length segments
                \<and> \<not> list_ex (isActive t) (segments ! displayedIndex c cacheKey)
                \<and> endw (last (segments ! displayedIndex c cacheKey)) < t"
    if h: "segmentCache c cacheKey = Some segments
           \<and> displayedIndex c cacheKey
               < displayedIndex (snd (displayEventOf timingData actualSize t event c)) cacheKey"
    for c t
  proof -
    obtain shown c1 where pass: "displayEventOf timingData actualSize t event c = (shown, c1)"
      by (metis surj_pair)
    from h have "fst (getSegments timingData actualSize event c) = segments"
      unfolding cacheKey_def by (simp add: getSegments_cached)
    with displayEventOf_index [OF pass]
    have new: "displayedIndex c1 cacheKey
                 = (if segments = [] then displayedIndex c cacheKey
                    else chooseSegmentIndex segments ?ws (displayedIndex c cacheKey) t)"
      by (simp add: cacheKey_def)
    from h have less: "displayedIndex c cacheKey < displayedIndex c1 cacheKey"
      by (simp add: pass)
    with new have nonempty: "segments \<noteq> []"
      by auto
    with new have c1: "displayedIndex c1 cacheKey
                         = chooseSegmentIndex segments ?ws (displayedIndex c cacheKey) t"
      by simp
    from less chooseSegmentIndex_advance [OF part ordered ne, of "displayedIndex c cacheKey" t]
    show ?thesis
      by (simp add: pass c1)
  qed
  from mono adv show ?thesis
    unfolding run by blast
qed

lemmas run_defs = displayEventOf_def getSegments_def cacheKeyOf_def emptyCaches_def
  cachesWithIndex_def cachesWithSegments_def displayedIndex_def buildSegments_def
  chooseSegmentIndex_def firstWordOfFirstSegment_def segmentAt_def isActive_def Let_def

lemma helloWords_run:
  "displayRun None narrowSize (mkEvent ''E'' ''S1'' 0 3 helloWords) emptyCaches [1/2, 5/2] = [0, 2]"
  by (simp add: run_defs width_defs example_defs)

lemma helloWords_stored_run:
  "displayRun None narrowSize (mkEvent ''E'' ''S1'' 0 3 helloWords) (cachesWithIndex 1) [3/2, 5/2]
     = [1, 2]"
  by (simp add: run_defs width_defs example_defs)

theorem displayed_segment_index_monotonic_witness:
  "sorted (map start helloWords)
   \<and> reached (buildSegments None narrowSize helloWords) 1 (3/2)
   \<and> displayRun None narrowSize (mkEvent ''E'' ''S1'' 0 3 helloWords) (cachesWithIndex 1) [3/2, 5/2]
       = [1, 2]
   \<and> sorted (displayedIndex (cachesWithIndex 1)
                (cacheKeyOf (mkEvent ''E'' ''S1'' 0 3 helloWords) narrowSize)
              # displayRun None narrowSize (mkEvent ''E'' ''S1'' 0 3 helloWords)
                  (cachesWithIndex 1) [3/2, 5/2])"
proof -
  let ?e = "mkEvent ''E'' ''S1'' 0 3 helloWords"
  have o: "sorted (map start (active_speech_words ?e))"
    by (simp add: example_defs)
  have i: "sorted_wrt (<) [3/2, 5/2 :: real]"
    by simp
  have c: "\<forall>segs. segmentCache (cachesWithIndex 1) (cacheKeyOf ?e narrowSize) = Some segs
                   \<longrightarrow> concat segs = active_speech_words ?e \<and> [] \<notin> set segs"
    by (simp add: cachesWithIndex_def)
  have segs: "fst (getSegments None narrowSize ?e (cachesWithIndex 1))
                = buildSegments None narrowSize helloWords"
    by (simp add: getSegments_def cachesWithIndex_def Let_def mkEvent_def)
  have r: "reached (buildSegments None narrowSize helloWords) 1 (3/2)"
    unfolding helloWords_segments by (simp add: reached_def mkWord_def)
  have d: "displayedIndex (cachesWithIndex 1) (cacheKeyOf ?e narrowSize) = 1"
    by (simp add: displayedIndex_def cachesWithIndex_def)
  have s: "\<exists>t0. (\<forall>t \<in> set [3/2, 5/2 :: real]. t0 \<le> t)
             \<and> reached (fst (getSegments None narrowSize ?e (cachesWithIndex 1)))
                 (displayedIndex (cachesWithIndex 1) (cacheKeyOf ?e narrowSize)) t0"
    unfolding segs d using r by (intro exI [of _ "3/2"]) simp
  from displayed_segment_index_monotonic [OF o i c s]
  have "sorted (displayedIndex (cachesWithIndex 1) (cacheKeyOf ?e narrowSize)
                # displayRun None narrowSize ?e (cachesWithIndex 1) [3/2, 5/2])"
    by blast
  with o r helloWords_stored_run show ?thesis
    by (simp add: mkEvent_def)
qed

text \<open>
  With three one-word segments and samples at 0.5 and 2.5 the index goes from 0 to 2, not
  to \<open>min (0 + 1) 2 = 1\<close>. With word windows that are not listed by ascending start time,
  the index goes from 1 back to 0 while the samples increase. With pauses between the
  words and the index 2 stored by a pass at a later time (before the video was moved
  back), the index goes from 2 back to 1 at the samples 2.5 and 3.5. With cached segments
  that list the words of the event in another order (cached for an earlier version of the
  event), the index goes from 1 back to 0.
\<close>

theorem displayed_segment_index_counterexample:
  "displayRun None narrowSize (mkEvent ''E'' ''S1'' 0 3 helloWords) emptyCaches [1/2, 5/2] = [0, 2]
   \<and> length (buildSegments None narrowSize helloWords) = 3
   \<and> displayRun None narrowSize (mkEvent ''U'' ''S1'' 0 6 unorderedWords) emptyCaches [3/2, 3]
       = [1, 0]
   \<and> map start unorderedWords = [5, 1]
   \<and> displayRun None narrowSize (mkEvent ''G'' ''S1'' 0 6 gapWords) (cachesWithIndex 2) [5/2, 7/2]
       = [2, 1]
   \<and> map start gapWords = [0, 3, 5]
   \<and> \<not> reached (buildSegments None narrowSize gapWords) 2 (5/2)
   \<and> displayRun None narrowSize
         (mkEvent ''W'' ''S1'' 0 4 [mkWord ''Hello'' 0 0 1, mkWord ''world'' 1 3 4])
         (cachesWithSegments [[mkWord ''world'' 1 3 4], [mkWord ''Hello'' 0 0 1]]) [1/2, 7/2]
       = [1, 0]"
proof -
  have u: "displayRun None narrowSize (mkEvent ''U'' ''S1'' 0 6 unorderedWords) emptyCaches [3/2, 3]
       = [1, 0]"
    by (simp add: run_defs width_defs example_defs)
  have g: "displayRun None narrowSize (mkEvent ''G'' ''S1'' 0 6 gapWords) (cachesWithIndex 2)
             [5/2, 7/2] = [2, 1]"
    by (simp add: run_defs width_defs example_defs)
  have segs: "buildSegments None narrowSize gapWords
                = [[mkWord ''Hello'' 0 0 1], [mkWord ''wonderful'' 1 3 4], [mkWord ''world'' 2 5 6]]"
    by (simp add: buildSegments_def width_defs example_defs)
  have r: "\<not> reached (buildSegments None narrowSize gapWords) 2 (5/2)"
    unfolding segs by (simp add: reached_def mkWord_def)
  have w: "displayRun None narrowSize
         (mkEvent ''W'' ''S1'' 0 4 [mkWord ''Hello'' 0 0 1, mkWord ''world'' 1 3 4])
         (cachesWithSegments [[mkWord ''world'' 1 3 4], [mkWord ''Hello'' 0 0 1]]) [1/2, 7/2]
       = [1, 0]"
    by (simp add: run_defs example_defs)
  have m: "map start unorderedWords = [5, 1]" "map start gapWords = [0, 3, 5]"
    by (simp_all add: example_defs)
  from helloWords_run helloWords_segments u g r w m show ?thesis
    by simp
qed

section \<open>The animation manager: theorems\<close>

lemmas animation_example_defs = bouncingElement_def bouncingConfig_def restingSurface_def
  bouncingManager_def

lemma cosHalfPi_pos: "0 < cosHalfPi"
  by (simp add: cosHalfPi_def)

lemma cosHalfPi_powr_pos: "0 < cosHalfPi powr (3 / 2)"
  using cosHalfPi_pos by simp

lemma bouncingManager_waves:
  "waveAnimations bouncingManager
     = [(''0-bounce'',
         \<lparr>element = bouncingElement, charPhase = 0, bounceRange = 10, startTime = 0,
           duration = 1, waveCycles = 3 / 2, pronunciationStart = 0, charTiming = None\<rparr>)]"
  by (simp add: bouncingManager_def createBouncingAnimation_def newManager_def bounceId_def
      killExisting_def Let_def bouncingElement_def bouncingConfig_def)

lemma bouncingManager_at_start:
  "waveEntry 0 \<lparr>element = bouncingElement, charPhase = 0, bounceRange = 10, startTime = 0,
           duration = 1, waveCycles = 3 / 2, pronunciationStart = 0, charTiming = None\<rparr>
     = SetY (Num (- 10))"
  by (simp add: waveEntry_def animStartTime_def animDuration_def peakTime_def Let_def)

lemma sin_seven_half_pi: "sin (7 * pi / 2) = - 1"
proof -
  have "sin (7 * pi / 2) = sin (3 * pi / 2 + 2 * pi)"
    by (simp add: field_simps)
  also have "\<dots> = sin (3 * pi / 2)"
    by (rule sin_periodic)
  also have "\<dots> = sin (3 / 2 * pi)"
    by simp
  also have "\<dots> = - 1"
    by (rule sin_3over2_pi)
  finally show ?thesis .
qed

lemma bouncingManager_at_end:
  "waveEntry 1 \<lparr>element = bouncingElement, charPhase = 0, bounceRange = 10, startTime = 0,
           duration = 1, waveCycles = 3 / 2, pronunciationStart = 0, charTiming = None\<rparr>
     = SetY (Num (- (10 * cosHalfPi powr (3 / 2))))"
proof -
  have "3 * pi + pi / 2 = 7 * pi / 2"
    by (simp add: field_simps)
  then have "\<bar>sin (3 * pi + pi / 2)\<bar> = 1"
    by (simp add: sin_seven_half_pi)
  then show ?thesis
    by (simp add: waveEntry_def animStartTime_def animDuration_def peakTime_def Let_def)
qed

lemma waveStep_manager:
  "\<exists>m1 m2. waveStep t e (m, ys) = (m1, snd (waveStep t e (m', ys)))
          \<and> waveStep t e (m', ys) = (m2, snd (waveStep t e (m', ys)))"
  by (cases "waveEntry t (snd e)") (simp_all add: waveStep_def)

lemma fold_waveStep_manager:
  "snd (fold (waveStep t) ws (m, ys)) = snd (fold (waveStep t) ws (m', ys))"
proof (induction ws arbitrary: m m' ys)
  case Nil
  then show ?case by simp
next
  case (Cons e ws)
  from waveStep_manager [of t e m ys m'] obtain m1 m2 where
    "waveStep t e (m, ys) = (m1, snd (waveStep t e (m', ys)))"
    "waveStep t e (m', ys) = (m2, snd (waveStep t e (m', ys)))"
    by blast
  with Cons.IH [of m1 "snd (waveStep t e (m', ys))" m2] show ?case
    by simp
qed

lemma clearAll_waves: "waveAnimations (clearAll m) = waveAnimations m"
  by (simp add: clearAll_def Let_def)

text \<open>
  For every manager, surface and time, the wave update after \<open>clearAll\<close> writes the same
  offsets as the wave update without it.
\<close>

lemma updateWaveAnimations_after_clearAll:
  "snd (updateWaveAnimations (clearAll m) ys t) = snd (updateWaveAnimations m ys t)"
  unfolding updateWaveAnimations_def clearAll_waves
  by (rule fold_waveStep_manager)

text \<open>
  Claim C1. \<open>clearAll\<close> empties the map of timelines and leaves the map of wave
  animations as it is. After a bounce has been created for a character and \<open>clearAll\<close>
  has been called, \<open>updateWaveAnimations(0)\<close> still moves the character: its offset goes
  from 0 to \<open>-10\<close>.
\<close>

theorem clearAll_keeps_wave_animations:
  "activeAnimations (clearAll bouncingManager) = []
   \<and> waveAnimations (clearAll bouncingManager) = waveAnimations bouncingManager
   \<and> length (waveAnimations (clearAll bouncingManager)) = 1
   \<and> restingSurface bouncingElement = Num 0
   \<and> snd (updateWaveAnimations (clearAll bouncingManager) restingSurface 0) bouncingElement
       = Num (- 10)"
proof -
  have w: "waveAnimations (clearAll bouncingManager) = waveAnimations bouncingManager"
    by (simp add: clearAll_def Let_def)
  have "snd (updateWaveAnimations (clearAll bouncingManager) restingSurface 0) bouncingElement
          = Num (- 10)"
    unfolding updateWaveAnimations_def w bouncingManager_waves
    by (simp add: waveStep_def bouncingManager_at_start)
  with w show ?thesis
    by (simp add: clearAll_def bouncingManager_waves restingSurface_def)
qed

lemma waveStep_surface:
  "snd (waveStep t e st) el =
     (if element (snd e) = el
      then (case waveEntry t (snd e) of SetY y \<Rightarrow> y | Finish \<Rightarrow> Num 0 | Skip \<Rightarrow> snd st el)
      else snd st el)"
  by (cases st) (simp add: waveStep_def split: waveAction.splits)

lemma fold_waveStep_surface:
  assumes "\<forall>e \<in> set ws. element (snd e) = el \<longrightarrow> snd e = d"
    and "\<exists>e \<in> set ws. snd e = d" and "element d = el"
  shows "snd (fold (waveStep t) ws st) el =
           (case waveEntry t d of SetY y \<Rightarrow> y | Finish \<Rightarrow> Num 0 | Skip \<Rightarrow> snd st el)"
  using assms
proof (induction ws rule: rev_induct)
  case Nil
  then show ?case by simp
next
  case (snoc x xs)
  show ?case
  proof (cases "element (snd x) = el")
    case True
    with snoc.prems(1) have x: "snd x = d" by simp
    show ?thesis
    proof (cases "\<exists>e \<in> set xs. snd e = d")
      case True
      with snoc have "snd (fold (waveStep t) xs st) el =
           (case waveEntry t d of SetY y \<Rightarrow> y | Finish \<Rightarrow> Num 0 | Skip \<Rightarrow> snd st el)"
        by simp
      then show ?thesis
        by (simp add: waveStep_surface x snoc.prems(3) split: waveAction.splits)
    next
      case False
      with snoc.prems(1) have "\<forall>e \<in> set xs. element (snd e) \<noteq> el"
        by auto
      then have "snd (fold (waveStep t) xs st) el = snd st el"
        by (induction xs rule: rev_induct) (simp_all add: waveStep_surface)
      then show ?thesis
        by (simp add: waveStep_surface x snoc.prems(3) split: waveAction.splits)
    qed
  next
    case False
    with snoc.prems have "\<exists>e \<in> set xs. snd e = d"
      by auto
    with snoc have "snd (fold (waveStep t) xs st) el =
           (case waveEntry t d of SetY y \<Rightarrow> y | Finish \<Rightarrow> Num 0 | Skip \<Rightarrow> snd st el)"
      by simp
    with False show ?thesis
      by (simp add: waveStep_surface)
  qed
qed

text \<open>The same for the exported manager: the last entry that moves an element decides.\<close>

lemma libWaveStep_surface:
  "snd (libWaveStep t e st) el =
     (if lib_element (snd e) = el
      then (case libWaveEntry t (snd e) of SetY y \<Rightarrow> y | Finish \<Rightarrow> Num 0 | Skip \<Rightarrow> snd st el)
      else snd st el)"
  by (cases st) (simp add: libWaveStep_def split: waveAction.splits)

lemma fold_libWaveStep_surface:
  assumes "\<forall>e \<in> set ws. lib_element (snd e) = el \<longrightarrow> snd e = d"
    and "\<exists>e \<in> set ws. snd e = d" and "lib_element d = el"
  shows "snd (fold (libWaveStep t) ws st) el =
           (case libWaveEntry t d of SetY y \<Rightarrow> y | Finish \<Rightarrow> Num 0 | Skip \<Rightarrow> snd st el)"
  using assms
proof (induction ws rule: rev_induct)
  case Nil
  then show ?case by simp
next
  case (snoc x xs)
  show ?case
  proof (cases "lib_element (snd x) = el")
    case True
    with snoc.prems(1) have x: "snd x = d" by simp
    show ?thesis
    proof (cases "\<exists>e \<in> set xs. snd e = d")
      case True
      with snoc have "snd (fold (libWaveStep t) xs st) el =
           (case libWaveEntry t d of SetY y \<Rightarrow> y | Finish \<Rightarrow> Num 0 | Skip \<Rightarrow> snd st el)"
        by simp
      then show ?thesis
        by (simp add: libWaveStep_surface x snoc.prems(3) split: waveAction.splits)
    next
      case False
      with snoc.prems(1) have "\<forall>e \<in> set xs. lib_element (snd e) \<noteq> el"
        by auto
      then have "snd (fold (libWaveStep t) xs st) el = snd st el"
        by (induction xs rule: rev_induct) (simp_all add: libWaveStep_surface)
      then show ?thesis
        by (simp add: libWaveStep_surface x snoc.prems(3) split: waveAction.splits)
    qed
  next
    case False
    with snoc.prems have "\<exists>e \<in> set xs. snd e = d"
      by auto
    with snoc have "snd (fold (libWaveStep t) xs st) el =
           (case libWaveEntry t d of SetY y \<Rightarrow> y | Finish \<Rightarrow> Num 0 | Skip \<Rightarrow> snd st el)"
      by simp
    with False show ?thesis
      by (simp add: libWaveStep_surface)
  qed
qed

lemma lib_surface:
  assumes mem: "(k, d) \<in> set waves"
    and alone: "\<forall>e \<in> set waves. lib_element (snd e) = lib_element d \<longrightarrow> snd e = d"
  shows "snd (libUpdateWaveAnimations waves ys t) (lib_element d) =
           (case libWaveEntry t d of SetY y \<Rightarrow> y | Finish \<Rightarrow> Num 0 | Skip \<Rightarrow> ys (lib_element d))"
proof -
  from mem have ex: "\<exists>e \<in> set waves. snd e = d"
    by force
  from fold_libWaveStep_surface [OF alone ex refl, of t "(waves, ys)"]
  show ?thesis
    by (simp add: libUpdateWaveAnimations_def split: waveAction.splits)
qed

lemma libWaveEntry_in_window:
  assumes "0 < lib_duration d" "lib_startTime d - libPreRoll d \<le> t"
    "t \<le> lib_startTime d + lib_duration d"
  shows "libWaveEntry t d =
     SetY (Num (- lib_bounceRange d
           * \<bar>sin (max 0 (min 1 ((t - lib_startTime d + libPreRoll d) / lib_duration d)) * (1 / 2)
                     * 2 * pi
                   + lib_charPhase d + - libPeakPosition d * (1 / 2) * 2 * pi)\<bar>
           * (1 - max 0 (min 1 ((t - lib_startTime d + libPreRoll d) / lib_duration d))) ^ 2))"
proof -
  have "- libPreRoll d \<le> t - lib_startTime d" "t - lib_startTime d \<le> lib_duration d"
    using assms by simp_all
  then show ?thesis
    using assms(1)
    by (simp add: libWaveEntry_def Let_def libPreRoll_def libPeakPosition_def algebra_simps)
qed

lemma set_update_distinct:
  "distinct (map fst al) \<Longrightarrow> set (AList.update k v al) = insert (k, v) {e \<in> set al. fst e \<noteq> k}"
  by (induction al) (auto simp: rev_image_eqI)

lemma createBouncingAnimation_waves:
  "enabled ba \<Longrightarrow>
   waveAnimations (fst (createBouncingAnimation m el charIndex wordLength (Some ba) screenHeight
                          startTime' wordDuration pronunciationStart' charTiming'))
     = AList.update (bounceId el charIndex)
         (createdData el charIndex wordLength ba screenHeight startTime' wordDuration
            pronunciationStart' charTiming')
         (waveAnimations m)"
  by (simp add: createBouncingAnimation_def createdData_def Let_def)

lemma created_surface:
  assumes en: "enabled ba"
    and keys: "distinct (map fst (waveAnimations m))"
    and alone: "\<forall>(k, d) \<in> set (waveAnimations m). k \<noteq> bounceId el charIndex \<longrightarrow> element d \<noteq> el"
  shows "snd (updateWaveAnimations
                (fst (createBouncingAnimation m el charIndex wordLength (Some ba) screenHeight
                        startTime' wordDuration pronunciationStart' charTiming')) ys t) el
         = (case waveEntry t (createdData el charIndex wordLength ba screenHeight startTime'
                                wordDuration pronunciationStart' charTiming') of
              SetY y \<Rightarrow> y | Finish \<Rightarrow> Num 0 | Skip \<Rightarrow> ys el)"
proof -
  let ?d = "createdData el charIndex wordLength ba screenHeight startTime' wordDuration
              pronunciationStart' charTiming'"
  let ?m = "fst (createBouncingAnimation m el charIndex wordLength (Some ba) screenHeight
                        startTime' wordDuration pronunciationStart' charTiming')"
  have ws: "set (waveAnimations ?m)
      = insert (bounceId el charIndex, ?d) {e \<in> set (waveAnimations m). fst e \<noteq> bounceId el charIndex}"
    by (simp add: createBouncingAnimation_waves [OF en] set_update_distinct [OF keys])
  have el: "element ?d = el"
    by (simp add: createdData_def)
  have a: "\<forall>e \<in> set (waveAnimations ?m). element (snd e) = el \<longrightarrow> snd e = ?d"
    unfolding ws using alone by auto
  have b: "\<exists>e \<in> set (waveAnimations ?m). snd e = ?d"
    unfolding ws by auto
  show ?thesis
    unfolding updateWaveAnimations_def
    using fold_waveStep_surface [OF a b el, of t "(?m, ys)"]
    by (simp split: waveAction.splits)
qed

lemma waveEntry_in_window:
  assumes "0 < animDuration d" "animStartTime d \<le> t" "t - animStartTime d \<le> animDuration d"
  shows "waveEntry t d =
     SetY (Num (- bounceRange d
           * \<bar>sin ((t - animStartTime d) / animDuration d * waveCycles d * pi * 2 + charPhase d
                   + (- ((peakTime d - animStartTime d) / animDuration d) * waveCycles d * pi * 2
                      + pi / 2))\<bar>
           * ((if (t - animStartTime d) / animDuration d = 1 then cosHalfPi
               else cos ((t - animStartTime d) / animDuration d * pi / 2)) powr 1.5)))"
  using assms by (simp add: waveEntry_def Let_def)

lemma waveEntry_zero_duration:
  assumes "animDuration d = 0"
  shows "waveEntry (animStartTime d) d = SetY NaN"
  using assms by (simp add: waveEntry_def Let_def)


lemma createdData_fields:
  "bounceRange (createdData el charIndex wordLength ba screenHeight startTime' wordDuration
                  pronunciationStart' charTiming')
     = screenHeight * (max_height_percent ba - min_height_percent ba) / 100"
  "charPhase (createdData el charIndex wordLength ba screenHeight startTime' wordDuration
                pronunciationStart' charTiming')
     = real charIndex * (2 * pi / real wordLength)"
  "waveCycles (createdData el charIndex wordLength ba screenHeight startTime' wordDuration
                 pronunciationStart' charTiming')
     = (case wave_cycles ba of None \<Rightarrow> 1.5 | Some c \<Rightarrow> if c = 0 then 1.5 else c)"
  "peakTime (createdData el charIndex wordLength ba screenHeight startTime' wordDuration
               pronunciationStart' charTiming')
     = (case charTiming' of
          Some ct \<Rightarrow> (case peak_time ct of Some pk \<Rightarrow> pk | None \<Rightarrow> pronunciationStart')
        | None \<Rightarrow> pronunciationStart')"
  "animStartTime (createdData el charIndex wordLength ba screenHeight startTime' wordDuration
                    pronunciationStart' charTiming')
     = (case charTiming' of Some ct \<Rightarrow> start_time ct | None \<Rightarrow> startTime')"
  "animDuration (createdData el charIndex wordLength ba screenHeight startTime' wordDuration
                   pronunciationStart' charTiming')
     = (case charTiming' of Some ct \<Rightarrow> end_time ct | None \<Rightarrow> startTime' + wordDuration)
       - (case charTiming' of Some ct \<Rightarrow> start_time ct | None \<Rightarrow> startTime')"
  by (simp_all add: createdData_def peakTime_def animStartTime_def animDuration_def
      algebra_simps diff_divide_distrib split: option.splits)

lemma libExample_at_three_quarters:
  "libWaveEntry (3 / 4) libExample = SetY (Num (- (5 / 8)))"
proof -
  have "3 / 4 * (1 / 2) * 2 * pi + 0 + - (1 / 4) * (1 / 2) * 2 * pi = pi / 2"
    by (simp add: field_simps)
  then have s: "\<bar>sin (3 / 4 * (1 / 2) * 2 * pi + 0 + - (1 / 4) * (1 / 2) * 2 * pi)\<bar> = 1"
    by simp
  have "libWaveEntry (3 / 4) libExample
      = SetY (Num (- 10 * \<bar>sin (3 / 4 * (1 / 2) * 2 * pi + 0 + - (1 / 4) * (1 / 2) * 2 * pi)\<bar>
                    * (1 - 3 / 4) ^ 2))"
    using libWaveEntry_in_window [of libExample "3 / 4"]
    by (simp add: libExample_def libPreRoll_def libPeakPosition_def)
  then show ?thesis
    unfolding s by (simp add: power2_eq_square)
qed

lemma libExample_at_quarter:
  "libWaveEntry (1 / 4) libExample = SetY (Num 0)"
proof -
  have "libWaveEntry (1 / 4) libExample
      = SetY (Num (- 10 * \<bar>sin (1 / 4 * (1 / 2) * 2 * pi + 0 + - (1 / 4) * (1 / 2) * 2 * pi)\<bar>
                    * (1 - 1 / 4) ^ 2))"
    using libWaveEntry_in_window [of libExample "1 / 4"]
    by (simp add: libExample_def libPreRoll_def libPeakPosition_def)
  then show ?thesis
    by simp
qed


lemma libExample_surface:
  "snd (libUpdateWaveAnimations [(''0-bounce'', libExample)] ys t) bouncingElement
     = (case libWaveEntry t libExample of SetY y \<Rightarrow> y | Finish \<Rightarrow> Num 0 | Skip \<Rightarrow> ys bouncingElement)"
  using lib_surface [of "''0-bounce''" libExample "[(''0-bounce'', libExample)]" ys t]
  by (simp add: libExample_def split: waveAction.splits)

lemma specWaveOffset_at_peak:
  "specWaveOffset 10 c 0 0 1 (1 / 4) (1 / 4) = - (10 * cos (pi / 8) powr (3 / 2))"
proof -
  have "1 / 4 * c * 2 * pi + 0 + (- (1 / 4) * c * 2 * pi + pi / 2) = pi / 2"
    by (simp add: field_simps)
  then have "\<bar>sin (1 / 4 * c * 2 * pi + 0 + (- (1 / 4) * c * 2 * pi + pi / 2))\<bar> = 1"
    by simp
  moreover have "1 / 4 * pi / 2 = pi / 8"
    by simp
  ultimately show ?thesis
    by (simp add: specWaveOffset_def Let_def)
qed

lemma cos_eighth_pi_powr_pos: "0 < cos (pi / 8) powr (3 / 2)"
proof -
  have "0 < cos (pi / 8)"
    by (rule cos_gt_zero_pi) (use pi_gt_zero in simp_all)
  then show ?thesis by simp
qed

text \<open>
  Claim C2, amended. The library has two managers, and each has its own formula.

  The component's manager: an enabled bounce is created for a character with resolved
  timing \<open>charStart\<close>, \<open>charEnd\<close> (the character timing when there is one, the start time
  and duration given to \<open>createBouncingAnimation\<close> otherwise) and peak time (the
  \<open>peak_time\<close> of the character timing, or else the pronunciation start), for a word of
  \<open>wordLength \<ge> 1\<close> characters. When \<open>charStart < charEnd\<close>, during the active window
  \<open>charStart \<le> t \<le> charEnd\<close> \<open>updateWaveAnimations\<close> sets the character's offset to
  \<open>- bounceRange * |sin (p * waveCycles * 2\<pi> + charPhase + phaseShift)| * damping p\<close>
  with \<open>charPhase = charIndex * (2\<pi> / wordLength)\<close>, \<open>p\<close> the clamped elapsed fraction,
  \<open>phaseShift = - peakOffset * waveCycles * 2\<pi> + \<pi>/2\<close>,
  \<open>bounceRange = screenHeight * (maxHeightPercent - minHeightPercent) / 100\<close>, and
  \<open>damping p = cos (p * \<pi>/2) ^ 1.5\<close> for \<open>p < 1\<close>, while \<open>damping 1 = c ^ 1.5\<close> with \<open>c\<close> the
  double \<open>Math.cos(Math.PI / 2)\<close>. When \<open>charStart = charEnd\<close> the offset set at that time is
  \<open>NaN\<close>. The manager may hold other animations, as long as no other entry moves this
  element.

  The exported manager: for an entry with a positive duration, during its window
  \<open>startTime - preRoll \<le> t \<le> startTime + duration\<close> \<open>updateWaveAnimations\<close> sets the offset of
  the entry's element to
  \<open>- bounceRange * |sin (q * 0.5 * 2\<pi> + charPhase + shift)| * (1 - q)\<^sup>2\<close> with
  \<open>q = clamp ((t - startTime + preRoll) / duration, 0, 1)\<close> and
  \<open>shift = - peakPosition * 0.5 * 2\<pi>\<close>, where \<open>preRoll\<close> is 0 and \<open>peakPosition\<close> is 0.25 when
  the entry has none: half a wave cycle whatever the configuration, no \<open>\<pi>/2\<close> in the
  shift, and a quadratic damping.
\<close>

theorem updateWaveAnimations_offset:
  fixes m :: Manager and el :: HTMLElement and charIndex wordLength :: nat
    and ba :: BouncingAnimation and screenHeight startTime' wordDuration pronunciationStart' t :: real
    and charTiming' :: "CharacterTiming option" and ys :: surface
  defines "created \<equiv> fst (createBouncingAnimation m el charIndex wordLength (Some ba) screenHeight
                            startTime' wordDuration pronunciationStart' charTiming')"
    and "charStart \<equiv> (case charTiming' of Some ct \<Rightarrow> start_time ct | None \<Rightarrow> startTime')"
    and "charEnd \<equiv> (case charTiming' of Some ct \<Rightarrow> end_time ct
                       | None \<Rightarrow> startTime' + wordDuration)"
    and "peak \<equiv> (case charTiming' of
                     Some ct \<Rightarrow> (case peak_time ct of Some pk \<Rightarrow> pk | None \<Rightarrow> pronunciationStart')
                   | None \<Rightarrow> pronunciationStart')"
    and "cycles \<equiv> (case wave_cycles ba of None \<Rightarrow> 1.5 | Some c \<Rightarrow> if c = 0 then 1.5 else c)"
    and "bounce \<equiv> screenHeight * (max_height_percent ba - min_height_percent ba) / 100"
    and "phase \<equiv> real charIndex * (2 * pi / real wordLength)"
  defines "p \<equiv> max 0 (min 1 ((t - charStart) / (charEnd - charStart)))"
    and "peakOffset \<equiv> (peak - charStart) / (charEnd - charStart)"
  defines "phaseShift \<equiv> - peakOffset * cycles * 2 * pi + pi / 2"
  assumes en: "enabled ba" and len: "0 < wordLength"
    and keys: "distinct (map fst (waveAnimations m))"
    and alone: "\<forall>(k, d) \<in> set (waveAnimations m). k \<noteq> bounceId el charIndex \<longrightarrow> element d \<noteq> el"
  shows "(charStart < charEnd \<and> charStart \<le> t \<and> t \<le> charEnd
          \<longrightarrow> snd (updateWaveAnimations created ys t) el
                = Num (- bounce * \<bar>sin (p * cycles * 2 * pi + phase + phaseShift)\<bar>
                       * ((if p = 1 then cosHalfPi else cos (p * pi / 2)) powr 1.5)))
       \<and> (charStart = charEnd \<longrightarrow> snd (updateWaveAnimations created ys charStart) el = NaN)
       \<and> (\<forall>waves k d.
             (k, d) \<in> set waves
             \<and> (\<forall>e \<in> set waves. lib_element (snd e) = lib_element d \<longrightarrow> snd e = d)
             \<and> 0 < lib_duration d
             \<and> lib_startTime d - libPreRoll d \<le> t \<and> t \<le> lib_startTime d + lib_duration d
             \<longrightarrow> snd (libUpdateWaveAnimations waves ys t) (lib_element d)
                   = Num (- lib_bounceRange d
                          * \<bar>sin (max 0 (min 1 ((t - lib_startTime d + libPreRoll d) / lib_duration d))
                                    * (1 / 2) * 2 * pi
                                  + lib_charPhase d + - libPeakPosition d * (1 / 2) * 2 * pi)\<bar>
                          * (1 - max 0 (min 1 ((t - lib_startTime d + libPreRoll d) / lib_duration d)))
                              ^ 2))"
proof -
  let ?d = "createdData el charIndex wordLength ba screenHeight startTime' wordDuration
              pronunciationStart' charTiming'"
  have s: "animStartTime ?d = charStart" and e: "animDuration ?d = charEnd - charStart"
    by (simp_all add: createdData_fields charStart_def charEnd_def)
  have component: "snd (updateWaveAnimations created ys t) el
                = Num (- bounce * \<bar>sin (p * cycles * 2 * pi + phase + phaseShift)\<bar>
                       * ((if p = 1 then cosHalfPi else cos (p * pi / 2)) powr 1.5))"
    if window: "charStart < charEnd \<and> charStart \<le> t \<and> t \<le> charEnd"
  proof -
    have frac: "0 \<le> (t - charStart) / (charEnd - charStart)"
      "(t - charStart) / (charEnd - charStart) \<le> 1"
      using window by simp_all
    then have p: "p = (t - charStart) / (charEnd - charStart)"
      by (simp add: p_def)
    have "waveEntry t ?d
        = SetY (Num (- bounceRange ?d
             * \<bar>sin ((t - charStart) / (charEnd - charStart) * waveCycles ?d * pi * 2 + charPhase ?d
                     + (- ((peakTime ?d - charStart) / (charEnd - charStart)) * waveCycles ?d * pi * 2
                        + pi / 2))\<bar>
             * ((if (t - charStart) / (charEnd - charStart) = 1 then cosHalfPi
                 else cos ((t - charStart) / (charEnd - charStart) * pi / 2)) powr 1.5)))"
      using waveEntry_in_window [of ?d t] window unfolding s e by simp
    then have entry: "waveEntry t ?d
        = SetY (Num (- bounce * \<bar>sin (p * cycles * 2 * pi + phase + phaseShift)\<bar>
                * ((if p = 1 then cosHalfPi else cos (p * pi / 2)) powr 1.5)))"
      unfolding createdData_fields p [symmetric]
      by (simp add: bounce_def phase_def phaseShift_def peakOffset_def peak_def cycles_def
          charStart_def charEnd_def mult_ac)
    show ?thesis
      unfolding created_def created_surface [OF en keys alone] entry by simp
  qed
  have degenerate: "snd (updateWaveAnimations created ys charStart) el = NaN"
    if "charStart = charEnd"
  proof -
    from that have "animDuration ?d = 0"
      by (simp add: e)
    from waveEntry_zero_duration [OF this] have "waveEntry charStart ?d = SetY NaN"
      by (simp add: s)
    then show ?thesis
      unfolding created_def created_surface [OF en keys alone] by simp
  qed
  have exported: "snd (libUpdateWaveAnimations waves ys t) (lib_element d)
       = Num (- lib_bounceRange d
              * \<bar>sin (max 0 (min 1 ((t - lib_startTime d + libPreRoll d) / lib_duration d))
                        * (1 / 2) * 2 * pi
                      + lib_charPhase d + - libPeakPosition d * (1 / 2) * 2 * pi)\<bar>
              * (1 - max 0 (min 1 ((t - lib_startTime d + libPreRoll d) / lib_duration d))) ^ 2)"
    if h: "(k, d) \<in> set waves
         \<and> (\<forall>e \<in> set waves. lib_element (snd e) = lib_element d \<longrightarrow> snd e = d)
         \<and> 0 < lib_duration d
         \<and> lib_startTime d - libPreRoll d \<le> t \<and> t \<le> lib_startTime d + lib_duration d"
    for waves :: "(string \<times> LibWaveData) list" and k d
  proof -
    from h have mem: "(k, d) \<in> set waves"
      and only: "\<forall>e \<in> set waves. lib_element (snd e) = lib_element d \<longrightarrow> snd e = d"
      and window: "0 < lib_duration d" "lib_startTime d - libPreRoll d \<le> t"
        "t \<le> lib_startTime d + lib_duration d"
      by blast+
    show ?thesis
      unfolding lib_surface [OF mem only] libWaveEntry_in_window [OF window] by simp
  qed
  from component degenerate exported show ?thesis
    by blast
qed

theorem updateWaveAnimations_offset_witness:
  "enabled bouncingConfig
   \<and> snd (updateWaveAnimations bouncingManager restingSurface 0) bouncingElement = Num (- 10)
   \<and> snd (libUpdateWaveAnimations [(''0-bounce'', libExample)] restingSurface 0) bouncingElement
       = Num (- (10 * (sqrt 2 / 2)))"
proof -
  have en: "enabled bouncingConfig"
    by (simp add: bouncingConfig_def)
  have keys: "distinct (map fst (waveAnimations newManager))"
    by (simp add: newManager_def)
  have alone: "\<forall>(k, d) \<in> set (waveAnimations newManager).
                 k \<noteq> bounceId bouncingElement 0 \<longrightarrow> element d \<noteq> bouncingElement"
    by (simp add: newManager_def)
  have len: "0 < (1 :: nat)"
    by simp
  note inst = updateWaveAnimations_offset [where m = newManager and el = bouncingElement
        and charIndex = 0 and wordLength = 1 and ba = bouncingConfig and screenHeight = 100
        and startTime' = 0 and wordDuration = 1 and pronunciationStart' = 0
        and charTiming' = None and t = 0 and ys = restingSurface, OF en len keys alone]
  have component: "snd (updateWaveAnimations
               (fst (createBouncingAnimation newManager bouncingElement 0 1 (Some bouncingConfig)
                       100 0 1 0 None)) restingSurface 0) bouncingElement = Num (- 10)"
    using inst by (simp add: bouncingConfig_def)
  have "(''0-bounce'', libExample) \<in> set [(''0-bounce'', libExample)]
         \<and> (\<forall>e \<in> set [(''0-bounce'', libExample)].
               lib_element (snd e) = lib_element libExample \<longrightarrow> snd e = libExample)
         \<and> 0 < lib_duration libExample
         \<and> lib_startTime libExample - libPreRoll libExample \<le> 0
         \<and> 0 \<le> lib_startTime libExample + lib_duration libExample"
    by (simp add: libExample_def libPreRoll_def)
  with inst have "snd (libUpdateWaveAnimations [(''0-bounce'', libExample)] restingSurface 0)
                    (lib_element libExample)
      = Num (- lib_bounceRange libExample
              * \<bar>sin (max 0 (min 1 ((0 - lib_startTime libExample + libPreRoll libExample)
                                      / lib_duration libExample))
                        * (1 / 2) * 2 * pi
                      + lib_charPhase libExample + - libPeakPosition libExample * (1 / 2) * 2 * pi)\<bar>
              * (1 - max 0 (min 1 ((0 - lib_startTime libExample + libPreRoll libExample)
                                     / lib_duration libExample))) ^ 2)"
    by blast
  moreover have "- (1 / 4) * (1 / 2) * 2 * pi = - (pi / 4)"
    by (simp add: field_simps)
  ultimately have exported:
    "snd (libUpdateWaveAnimations [(''0-bounce'', libExample)] restingSurface 0) bouncingElement
       = Num (- (10 * (sqrt 2 / 2)))"
    by (simp add: libExample_def libPreRoll_def libPeakPosition_def sin_45)
  from en component exported show ?thesis
    by (simp add: bouncingManager_def)
qed

text \<open>
  An entry of the exported manager with range 10 during \<open>[0, 1]\<close> and the default peak
  position 0.25: at \<open>t = 0.25\<close> the exported manager sets the offset 0. The formula of the
  claim for the same character (range 10, window \<open>[0, 1]\<close>, peak time 0.25) gives
  \<open>-10 * cos (\<pi>/8) ^ 1.5\<close>, about \<open>-8.88\<close>, with half a wave cycle and with one and a half.
  In the component, at the end of the window \<open>[0, 1]\<close> the formula of the claim gives 0 and
  \<open>updateWaveAnimations\<close> sets \<open>-10 * c ^ 1.5\<close>, about \<open>-4.79e-24\<close>; and a bounce of duration 0
  sets \<open>NaN\<close>.
\<close>

theorem updateWaveAnimations_offset_counterexample:
  "snd (libUpdateWaveAnimations [(''0-bounce'', libExample)] restingSurface (1 / 4)) bouncingElement
     = Num 0
   \<and> specWaveOffset 10 (1 / 2) 0 0 1 (1 / 4) (1 / 4) = - (10 * cos (pi / 8) powr (3 / 2))
   \<and> specWaveOffset 10 (3 / 2) 0 0 1 (1 / 4) (1 / 4) = - (10 * cos (pi / 8) powr (3 / 2))
   \<and> 0 < cos (pi / 8) powr (3 / 2)
   \<and> snd (updateWaveAnimations bouncingManager restingSurface 1) bouncingElement
       = Num (- (10 * cosHalfPi powr (3 / 2)))
   \<and> 0 < cosHalfPi powr (3 / 2)
   \<and> specWaveOffset 10 (3 / 2) 0 0 1 0 1 = 0
   \<and> snd (updateWaveAnimations
             (fst (createBouncingAnimation newManager bouncingElement 0 1 (Some bouncingConfig)
                     100 0 0 0 None)) restingSurface 0) bouncingElement
       = NaN"
proof -
  have a: "snd (libUpdateWaveAnimations [(''0-bounce'', libExample)] restingSurface (1 / 4))
             bouncingElement = Num 0"
    by (simp add: libExample_surface libExample_at_quarter)
  have b: "snd (updateWaveAnimations bouncingManager restingSurface 1) bouncingElement
       = Num (- (10 * cosHalfPi powr (3 / 2)))"
    unfolding updateWaveAnimations_def bouncingManager_waves
    by (simp add: waveStep_def bouncingManager_at_end)
  have c: "specWaveOffset 10 (3 / 2) 0 0 1 0 1 = 0"
    by (simp add: specWaveOffset_def Let_def)
  have d: "snd (updateWaveAnimations
             (fst (createBouncingAnimation newManager bouncingElement 0 1 (Some bouncingConfig)
                     100 0 0 0 None)) restingSurface 0) bouncingElement
       = NaN"
    by (simp add: updateWaveAnimations_def createBouncingAnimation_def newManager_def bounceId_def
        killExisting_def Let_def bouncingElement_def bouncingConfig_def waveStep_def waveEntry_def
        animStartTime_def animDuration_def)
  from a b c d specWaveOffset_at_peak [of "1 / 2"] specWaveOffset_at_peak [of "3 / 2"]
    cos_eighth_pi_powr_pos cosHalfPi_powr_pos
  show ?thesis
    by simp
qed




end
